theory Spec2Isabelle
  imports
    Complex_Main
    "HOL-Library.Word"
    "HOL-Library.AList"
    "HOL-Library.Char_ord"
    "HOL-Library.List_Lexorder"
begin

unbundle bit_operations_syntax

section \<open>An entity-component-system runtime and its collision system\<close>

text \<open>
  The development embeds the TypeScript classes \<^verbatim>\<open>Component\<close>, \<^verbatim>\<open>Entity\<close>,
  \<^verbatim>\<open>System\<close>, \<^verbatim>\<open>World\<close>, \<^verbatim>\<open>TransformComponent\<close>, \<^verbatim>\<open>ColliderComponent\<close> and
  \<^verbatim>\<open>CollisionSystem\<close>.

  Conventions of the embedding:
  \<^item> a JavaScript \<^verbatim>\<open>number\<close> that the code computes with (a coordinate, an offset, a
    size) is a binary64 value: a finite real, an infinity or NaN, and every \<^verbatim>\<open>+\<close>,
    \<^verbatim>\<open>-\<close>, \<^verbatim>\<open>*\<close> and \<^verbatim>\<open>Math.sqrt\<close> rounds its exact result to the nearest binary64
    value, ties to even; a \<^verbatim>\<open>number\<close> that is only compared or passed on (a priority, a
    time, a threshold) is a \<^typ>\<open>real\<close>; a \<^verbatim>\<open>number\<close> used as a bit set (collision
    layer and mask) is an \<^typ>\<open>int\<close> that the operator \<^verbatim>\<open>&\<close> converts to 32 bits;
  \<^item> a JavaScript \<^verbatim>\<open>Map\<close> is an association list in insertion order: \<^verbatim>\<open>set\<close> is
    \<^const>\<open>AList.update\<close> (an existing key keeps its place, a new key goes last),
    \<^verbatim>\<open>delete\<close> is \<^const>\<open>AList.delete\<close>, \<^verbatim>\<open>get\<close> is \<^const>\<open>map_of\<close>, and iteration
    walks the list; a JavaScript \<^verbatim>\<open>Set\<close> is a list without repetition in insertion order;
  \<^item> component objects live in a heap indexed by references, because an entity and the
    code outside it share them; an entity reference held by a component is the entity's id;
  \<^item> callbacks (listeners) are opaque: they are identified by a number, and calling one
    is recorded in the list of effects that the operation returns.
\<close>

subsection \<open>JavaScript containers and strings\<close>

type_synonym ('k, 'v) js_map = "('k \<times> 'v) list"

definition map_has :: "('k, 'v) js_map \<Rightarrow> 'k \<Rightarrow> bool" where
  "map_has m k = (k \<in> fst ` set m)"

definition map_keys :: "('k, 'v) js_map \<Rightarrow> 'k list" where
  "map_keys m = map fst m"

definition map_values :: "('k, 'v) js_map \<Rightarrow> 'v list" where
  "map_values m = map snd m"

text \<open>\<^verbatim>\<open>Set.prototype.add\<close>: a value already present is not added again.\<close>

definition set_add :: "'a \<Rightarrow> 'a list \<Rightarrow> 'a list" where
  "set_add v s = (if v \<in> set s then s else s @ [v])"

text \<open>\<^verbatim>\<open>String.prototype.split\<close> with a one-character separator.\<close>

fun split :: "char \<Rightarrow> string \<Rightarrow> string list" where
  "split sep [] = [[]]"
| "split sep (c # cs) =
     (if c = sep then [] # split sep cs
      else (case split sep cs of
              [] \<Rightarrow> [[c]]
            | p # ps \<Rightarrow> (c # p) # ps))"

text \<open>
  \<^verbatim>\<open>Array.prototype.findIndex\<close>: the first index whose element satisfies the predicate,
  or \<open>-1\<close>.
\<close>

fun findIndex :: "('a \<Rightarrow> bool) \<Rightarrow> 'a list \<Rightarrow> int" where
  "findIndex P [] = - 1"
| "findIndex P (v # vs) =
     (if P v then 0
      else (let i = findIndex P vs in if i = - 1 then - 1 else i + 1))"

text \<open>\<^verbatim>\<open>xs.splice(i, 0, v)\<close> and \<^verbatim>\<open>xs.splice(i, 1)\<close> for \<open>0 \<le> i \<le> length xs\<close>.\<close>

definition splice_insert :: "nat \<Rightarrow> 'a \<Rightarrow> 'a list \<Rightarrow> 'a list" where
  "splice_insert i v vs = take i vs @ v # drop i vs"

definition splice_remove :: "nat \<Rightarrow> 'a list \<Rightarrow> 'a list" where
  "splice_remove i vs = take i vs @ drop (Suc i) vs"

subsection \<open>JavaScript numbers\<close>

text \<open>
  Rounding a real to binary64, overflow left aside: the exponent of \<open>x\<close> is
  \<open>\<lfloor>log\<^sub>2 \<bar>x\<bar>\<rfloor>\<close>, but at least \<open>-1022\<close> (below that the values are subnormal); the
  spacing of the binary64 values around \<open>x\<close> is \<open>2\<close> to the exponent minus 52; \<open>x\<close> is
  rounded to the nearest multiple of the spacing, and to the even multiple if two are
  equally near.
\<close>

definition round_half_even :: "real \<Rightarrow> int" where
  "round_half_even y =
     (let f = \<lfloor>y\<rfloor>; d = y - of_int f
      in if d < 1 / 2 then f
         else if 1 / 2 < d then f + 1
         else if even f then f else f + 1)"

definition exponent64 :: "real \<Rightarrow> int" where
  "exponent64 x = max \<lfloor>log 2 \<bar>x\<bar>\<rfloor> (- 1022)"

definition ulp64 :: "real \<Rightarrow> real" where
  "ulp64 x = 2 powr real_of_int (exponent64 x - 52)"

definition fl :: "real \<Rightarrow> real" where
  "fl x = (if x = 0 then 0 else ulp64 x * of_int (round_half_even (x / ulp64 x)))"

text \<open>
  A number is finite, an infinity or NaN (the two zeros are not told apart: no operation
  of the code distinguishes them). A rounded result beyond the largest binary64 value is
  an infinity.
\<close>

datatype jsnum = Finite real | PlusInfinity | MinusInfinity | NaN

definition max_double :: real where
  "max_double = (2 ^ 53 - 1) * 2 ^ 971"

definition round64 :: "real \<Rightarrow> jsnum" where
  "round64 x =
     (let r = fl x
      in if max_double < r then PlusInfinity
         else if r < - max_double then MinusInfinity
         else Finite r)"

fun js_neg :: "jsnum \<Rightarrow> jsnum" where
  "js_neg (Finite a) = Finite (- a)"
| "js_neg PlusInfinity = MinusInfinity"
| "js_neg MinusInfinity = PlusInfinity"
| "js_neg NaN = NaN"

fun js_add :: "jsnum \<Rightarrow> jsnum \<Rightarrow> jsnum" where
  "js_add (Finite a) (Finite b) = round64 (a + b)"
| "js_add NaN b = NaN"
| "js_add a NaN = NaN"
| "js_add PlusInfinity MinusInfinity = NaN"
| "js_add MinusInfinity PlusInfinity = NaN"
| "js_add PlusInfinity b = PlusInfinity"
| "js_add a PlusInfinity = PlusInfinity"
| "js_add MinusInfinity b = MinusInfinity"
| "js_add a MinusInfinity = MinusInfinity"

definition js_sub :: "jsnum \<Rightarrow> jsnum \<Rightarrow> jsnum" where
  "js_sub a b = js_add a (js_neg b)"

fun js_sgn :: "jsnum \<Rightarrow> int" where
  "js_sgn (Finite a) = (if a = 0 then 0 else if 0 < a then 1 else - 1)"
| "js_sgn PlusInfinity = 1"
| "js_sgn MinusInfinity = - 1"
| "js_sgn NaN = 0"

fun js_mul :: "jsnum \<Rightarrow> jsnum \<Rightarrow> jsnum" where
  "js_mul (Finite a) (Finite b) = round64 (a * b)"
| "js_mul NaN b = NaN"
| "js_mul a NaN = NaN"
| "js_mul a b =
     (if js_sgn a = 0 \<or> js_sgn b = 0 then NaN
      else if js_sgn a = js_sgn b then PlusInfinity else MinusInfinity)"

fun js_sqrt :: "jsnum \<Rightarrow> jsnum" where
  "js_sqrt (Finite a) = (if a < 0 then NaN else round64 (sqrt a))"
| "js_sqrt PlusInfinity = PlusInfinity"
| "js_sqrt MinusInfinity = NaN"
| "js_sqrt NaN = NaN"

text \<open>\<^verbatim>\<open>a < b\<close>; the source's \<^verbatim>\<open>a > b\<close> is \<open>js_less b a\<close>. A comparison with NaN is false.\<close>

fun js_less :: "jsnum \<Rightarrow> jsnum \<Rightarrow> bool" where
  "js_less (Finite a) (Finite b) = (a < b)"
| "js_less NaN b = False"
| "js_less a NaN = False"
| "js_less MinusInfinity MinusInfinity = False"
| "js_less MinusInfinity b = True"
| "js_less PlusInfinity b = False"
| "js_less a PlusInfinity = True"
| "js_less a MinusInfinity = False"

text \<open>\<^verbatim>\<open>Math.max\<close> and \<^verbatim>\<open>Math.min\<close> of two numbers: NaN if one of them is NaN.\<close>

definition js_max :: "jsnum \<Rightarrow> jsnum \<Rightarrow> jsnum" where
  "js_max a b = (if a = NaN \<or> b = NaN then NaN else if js_less a b then b else a)"

definition js_min :: "jsnum \<Rightarrow> jsnum \<Rightarrow> jsnum" where
  "js_min a b = (if a = NaN \<or> b = NaN then NaN else if js_less b a then b else a)"

text \<open>The real that a finite number denotes.\<close>

fun val :: "jsnum \<Rightarrow> real" where
  "val (Finite a) = a"
| "val PlusInfinity = 0"
| "val MinusInfinity = 0"
| "val NaN = 0"

subsection \<open>Components\<close>

type_synonym entity_id = string
type_synonym cref = nat

record TransformComponent =
  tx :: jsnum
  ty :: jsnum
  rotation :: jsnum
  scaleX :: jsnum
  scaleY :: jsnum

datatype ColliderType = CIRCLE | RECTANGLE

record ColliderComponent =
  ctype :: ColliderType
  width :: jsnum
  height :: jsnum
  radius :: jsnum
  offsetX :: jsnum
  offsetY :: jsnum
  isTrigger :: bool
  collisionLayer :: int
  collisionMask :: int

text \<open>The constructors of the two classes, with the defaults as parameters.\<close>

definition new_TransformComponent ::
  "jsnum \<Rightarrow> jsnum \<Rightarrow> jsnum \<Rightarrow> jsnum \<Rightarrow> jsnum \<Rightarrow> TransformComponent" where
  "new_TransformComponent x y rot sx sy =
     \<lparr>tx = x, ty = y, rotation = rot, scaleX = sx, scaleY = sy\<rparr>"

definition new_ColliderComponent ::
  "ColliderType \<Rightarrow> jsnum \<Rightarrow> jsnum \<Rightarrow> jsnum \<Rightarrow> jsnum \<Rightarrow> jsnum \<Rightarrow> bool \<Rightarrow> int \<Rightarrow> int
     \<Rightarrow> ColliderComponent" where
  "new_ColliderComponent t w h r ox oy trigger layer msk =
     \<lparr>ctype = t, width = w, height = h, radius = r, offsetX = ox, offsetY = oy,
      isTrigger = trigger, collisionLayer = layer, collisionMask = msk\<rparr>"

text \<open>
  The concrete component classes are a closed sum. Only the two classes that the collision
  system reads carry their fields; any other class is represented by the type identifier
  that its \<^verbatim>\<open>getType()\<close> returns.
\<close>

datatype component_data =
    Transform TransformComponent
  | Collider ColliderComponent
  | Other string

record component =
  owner :: "entity_id option"
  cdata :: component_data

definition getType :: "component \<Rightarrow> string" where
  "getType c =
     (case cdata c of
        Transform t \<Rightarrow> ''Transform''
      | Collider k \<Rightarrow> ''Collider''
      | Other name \<Rightarrow> name)"

definition setOwner :: "entity_id option \<Rightarrow> component \<Rightarrow> component" where
  "setOwner e c = c\<lparr>owner := e\<rparr>"

definition getOwner :: "component \<Rightarrow> entity_id option" where
  "getOwner c = owner c"

text \<open>
  Every reference denotes an object, so the heap is total. The methods that an entity
  calls on a component object are recorded next to the heap; a call of the lifecycle
  hook \<^verbatim>\<open>init()\<close> or \<^verbatim>\<open>destroy()\<close> of a component would be recorded as \<open>CallInit\<close>
  or \<open>CallDestroy\<close>.
\<close>

datatype component_call =
    CallGetType cref
  | CallSetOwner cref "entity_id option"
  | CallInit cref
  | CallDestroy cref

type_synonym heap = "cref \<Rightarrow> component"

record store =
  objs :: heap
  calls :: "component_call list"

subsection \<open>Entity\<close>

record entity =
  eid :: entity_id
  components :: "(string, cref) js_map"
  tags :: "string list"
  active :: bool

text \<open>The constructor; the id comes from \<^verbatim>\<open>uuidv4()\<close> and is a parameter here.\<close>

definition new_Entity :: "entity_id \<Rightarrow> entity" where
  "new_Entity i = \<lparr>eid = i, components = [], tags = [], active = True\<rparr>"

definition getId :: "entity \<Rightarrow> entity_id" where
  "getId e = eid e"

definition addComponent :: "cref \<Rightarrow> entity \<Rightarrow> store \<Rightarrow> entity \<times> store" where
  "addComponent r e s =
     (let t = getType (objs s r);
          e' = e\<lparr>components := AList.update t r (components e)\<rparr>;
          s' = s\<lparr>objs := (objs s)(r := setOwner (Some (eid e)) (objs s r)),
                 calls := calls s @ [CallGetType r, CallSetOwner r (Some (eid e))]\<rparr>
      in (e', s'))"

definition removeComponent :: "string \<Rightarrow> entity \<Rightarrow> store \<Rightarrow> entity \<times> store" where
  "removeComponent t e s =
     (if map_has (components e) t then
        (case map_of (components e) t of
           Some r \<Rightarrow>
             (e\<lparr>components := AList.delete t (components e)\<rparr>,
              s\<lparr>objs := (objs s)(r := setOwner None (objs s r)),
                calls := calls s @ [CallSetOwner r None]\<rparr>)
         | None \<Rightarrow> (e\<lparr>components := AList.delete t (components e)\<rparr>, s))
      else (e, s))"

definition getComponent :: "heap \<Rightarrow> entity \<Rightarrow> string \<Rightarrow> component option" where
  "getComponent h e t = map_option h (map_of (components e) t)"

definition hasComponent :: "entity \<Rightarrow> string \<Rightarrow> bool" where
  "hasComponent e t = map_has (components e) t"

definition getComponents :: "heap \<Rightarrow> entity \<Rightarrow> component list" where
  "getComponents h e = map h (map_values (components e))"

definition addTag :: "string \<Rightarrow> entity \<Rightarrow> entity" where
  "addTag t e = e\<lparr>tags := set_add t (tags e)\<rparr>"

definition removeTag :: "string \<Rightarrow> entity \<Rightarrow> entity" where
  "removeTag t e = e\<lparr>tags := removeAll t (tags e)\<rparr>"

definition hasTag :: "entity \<Rightarrow> string \<Rightarrow> bool" where
  "hasTag e t = (t \<in> set (tags e))"

definition setActive :: "bool \<Rightarrow> entity \<Rightarrow> entity" where
  "setActive b e = e\<lparr>active := b\<rparr>"

definition isActive :: "entity \<Rightarrow> bool" where
  "isActive e = active e"

subsection \<open>System\<close>

text \<open>
  What a system's \<^verbatim>\<open>update\<close> may do to the world it is attached to: request an entity
  addition, request a removal, or change an entity that is already registered (entities
  are shared objects, so such a change is immediate). A system that tears the world down
  with \<^verbatim>\<open>clear()\<close>, changes the system list, or calls \<^verbatim>\<open>World.update\<close> from within
  its own \<^verbatim>\<open>update\<close> is outside this model.
\<close>

datatype world_call =
    CallAddEntity entity
  | CallRemoveEntity entity_id
  | CallSetActive entity_id bool

text \<open>
  A system has a fixed priority, an active flag, the world back-reference (here: whether it
  is set), and state of its own of type \<open>'s\<close>. Its \<^verbatim>\<open>update\<close> reads the world's entity
  listing and the elapsed time, changes its own state and issues world calls; \<^verbatim>\<open>init\<close>
  and \<^verbatim>\<open>destroy\<close> change its own state. The abstract method \<^verbatim>\<open>filter\<close> is never called
  by the world and is left to the concrete system.
\<close>

record 's system =
  sname :: string
  priority :: real
  sys_active :: bool
  has_world :: bool
  sys_state :: 's
  sys_init :: "'s \<Rightarrow> 's"
  sys_update :: "'s \<Rightarrow> entity list \<Rightarrow> real \<Rightarrow> world_call list \<times> 's"
  sys_destroy :: "'s \<Rightarrow> 's"

definition getPriority :: "'s system \<Rightarrow> real" where
  "getPriority sys = priority sys"

subsection \<open>World\<close>

record 's world =
  entities :: "(entity_id, entity) js_map"
  systems :: "'s system list"
  entitiesToAdd :: "entity list"
  entitiesToRemove :: "entity_id list"
  entityListeners :: "nat list"

definition new_World :: "'s world" where
  "new_World =
     \<lparr>entities = [], systems = [], entitiesToAdd = [], entitiesToRemove = [],
      entityListeners = []\<rparr>"

definition addEntity :: "entity \<Rightarrow> 's world \<Rightarrow> 's world" where
  "addEntity e w = w\<lparr>entitiesToAdd := entitiesToAdd w @ [e]\<rparr>"

definition removeEntity :: "entity_id \<Rightarrow> 's world \<Rightarrow> 's world" where
  "removeEntity i w = w\<lparr>entitiesToRemove := set_add i (entitiesToRemove w)\<rparr>"

definition getEntity :: "'s world \<Rightarrow> entity_id \<Rightarrow> entity option" where
  "getEntity w i = map_of (entities w) i"

definition getEntities :: "'s world \<Rightarrow> entity list" where
  "getEntities w = map_values (entities w)"

definition getEntitiesByTag :: "'s world \<Rightarrow> string \<Rightarrow> entity list" where
  "getEntitiesByTag w t = filter (\<lambda>e. hasTag e t) (getEntities w)"

definition addEntityListener :: "nat \<Rightarrow> 's world \<Rightarrow> 's world" where
  "addEntityListener l w = w\<lparr>entityListeners := entityListeners w @ [l]\<rparr>"

definition addSystem :: "'s system \<Rightarrow> 's world \<Rightarrow> 's world" where
  "addSystem sys w =
     (let sys' = sys\<lparr>has_world := True, sys_state := sys_init sys (sys_state sys)\<rparr>;
          p = getPriority sys';
          found = findIndex (\<lambda>s. getPriority s > p) (systems w);
          index = (if found = - 1 then int (length (systems w)) else found)
      in w\<lparr>systems := splice_insert (nat index) sys' (systems w)\<rparr>)"

text \<open>
  \<^verbatim>\<open>removeSystem\<close> takes the class to remove; \<open>is_instance\<close> is the test
  \<^verbatim>\<open>system instanceof systemType\<close>. The removed system is destroyed and detached before it
  is dropped from the list.
\<close>

definition removeSystem :: "('s system \<Rightarrow> bool) \<Rightarrow> 's world \<Rightarrow> 's world" where
  "removeSystem is_instance w =
     (let index = findIndex is_instance (systems w)
      in if index \<noteq> - 1 then w\<lparr>systems := splice_remove (nat index) (systems w)\<rparr> else w)"

definition getSystem :: "('s system \<Rightarrow> bool) \<Rightarrow> 's world \<Rightarrow> 's system option" where
  "getSystem is_instance w = find is_instance (systems w)"

definition clear :: "'s world \<Rightarrow> 's world" where
  "clear w = w\<lparr>entities := [], entitiesToAdd := [], entitiesToRemove := [], systems := []\<rparr>"

text \<open>
  The effects of one \<^verbatim>\<open>World.update\<close>: a call \<^verbatim>\<open>listener(entity, added)\<close> of an entity
  listener, and a call \<^verbatim>\<open>system.update(deltaTime)\<close>, recorded with the entity listing
  that the world hands to this system.
\<close>

datatype world_effect =
    Notified nat entity bool
  | Ran string "entity list" real

fun flushAdditions ::
  "nat list \<Rightarrow> entity list \<Rightarrow> (entity_id, entity) js_map
     \<Rightarrow> (entity_id, entity) js_map \<times> world_effect list" where
  "flushAdditions ls [] m = (m, [])"
| "flushAdditions ls (e # es) m =
     (let (m', fx) = flushAdditions ls es (AList.update (getId e) e m)
      in (m', map (\<lambda>l. Notified l e True) ls @ fx))"

fun flushRemovals ::
  "nat list \<Rightarrow> entity_id list \<Rightarrow> (entity_id, entity) js_map
     \<Rightarrow> (entity_id, entity) js_map \<times> world_effect list" where
  "flushRemovals ls [] m = (m, [])"
| "flushRemovals ls (i # is) m =
     (case map_of m i of
        Some e \<Rightarrow>
          (let (m', fx) = flushRemovals ls is (AList.delete i m)
           in (m', map (\<lambda>l. Notified l e False) ls @ fx))
      | None \<Rightarrow> flushRemovals ls is m)"

fun apply_call :: "world_call \<Rightarrow> 's world \<Rightarrow> 's world" where
  "apply_call (CallAddEntity e) w = addEntity e w"
| "apply_call (CallRemoveEntity i) w = removeEntity i w"
| "apply_call (CallSetActive i b) w =
     (case getEntity w i of
        None \<Rightarrow> w
      | Some e \<Rightarrow> w\<lparr>entities := AList.update i (setActive b e) (entities w)\<rparr>)"

fun apply_calls :: "world_call list \<Rightarrow> 's world \<Rightarrow> 's world" where
  "apply_calls [] w = w"
| "apply_calls (c # cs) w = apply_calls cs (apply_call c w)"

text \<open>
  The loop over \<^verbatim>\<open>this.systems\<close>. It returns the systems with their new states, the
  world as the systems' calls left it, and the effects.
\<close>

fun runSystems ::
  "real \<Rightarrow> 's system list \<Rightarrow> 's world \<Rightarrow> 's system list \<times> 's world \<times> world_effect list" where
  "runSystems dt [] w = ([], w, [])"
| "runSystems dt (sys # rest) w =
     (if sys_active sys then
        (let (cs, st) = sys_update sys (sys_state sys) (getEntities w) dt;
             (rest', w', fx) = runSystems dt rest (apply_calls cs w)
         in (sys\<lparr>sys_state := st\<rparr> # rest', w', Ran (sname sys) (getEntities w) dt # fx))
      else
        (let (rest', w', fx) = runSystems dt rest w
         in (sys # rest', w', fx)))"

text \<open>The three steps of \<^verbatim>\<open>World.update\<close>, in the order of the source.\<close>

definition processAdditions :: "'s world \<Rightarrow> 's world \<times> world_effect list" where
  "processAdditions w =
     (if length (entitiesToAdd w) > 0
      then (let (m, fx) = flushAdditions (entityListeners w) (entitiesToAdd w) (entities w)
            in (w\<lparr>entities := m, entitiesToAdd := []\<rparr>, fx))
      else (w, []))"

definition processRemovals :: "'s world \<Rightarrow> 's world \<times> world_effect list" where
  "processRemovals w =
     (if length (entitiesToRemove w) > 0
      then (let (m, fx) = flushRemovals (entityListeners w) (entitiesToRemove w) (entities w)
            in (w\<lparr>entities := m, entitiesToRemove := []\<rparr>, fx))
      else (w, []))"

definition updateSystems :: "real \<Rightarrow> 's world \<Rightarrow> 's world \<times> world_effect list" where
  "updateSystems dt w =
     (let (ss, w', fx) = runSystems dt (systems w) w
      in (w'\<lparr>systems := ss\<rparr>, fx))"

definition World_update :: "real \<Rightarrow> 's world \<Rightarrow> 's world \<times> world_effect list" where
  "World_update dt w =
     (let (w1, fx1) = processAdditions w;
          (w2, fx2) = processRemovals w1;
          (w3, fx3) = updateSystems dt w2
      in (w3, fx1 @ fx2 @ fx3))"

subsection \<open>ColliderComponent methods\<close>

definition getColliderType :: "ColliderComponent \<Rightarrow> ColliderType" where
  "getColliderType c = ctype c"

definition getRadius :: "ColliderComponent \<Rightarrow> jsnum" where
  "getRadius c = radius c"

definition getOffsetX :: "ColliderComponent \<Rightarrow> jsnum" where
  "getOffsetX c = offsetX c"

definition getOffsetY :: "ColliderComponent \<Rightarrow> jsnum" where
  "getOffsetY c = offsetY c"

definition getCollisionLayer :: "ColliderComponent \<Rightarrow> int" where
  "getCollisionLayer c = collisionLayer c"

text \<open>
  \<^verbatim>\<open>(this.collisionMask & layer) !== 0\<close>: the operator \<^verbatim>\<open>&\<close> works on the operands
  reduced to 32 bits.
\<close>

definition canCollideWith :: "ColliderComponent \<Rightarrow> int \<Rightarrow> bool" where
  "canCollideWith c layer \<longleftrightarrow>
     (word_of_int (collisionMask c) :: 32 word) AND word_of_int layer \<noteq> 0"

record bounds =
  b_x :: jsnum
  b_y :: jsnum
  b_width :: jsnum
  b_height :: jsnum

definition getBounds :: "ColliderComponent \<Rightarrow> TransformComponent \<Rightarrow> bounds" where
  "getBounds c t =
     (let x = js_add (tx t) (offsetX c);
          y = js_add (ty t) (offsetY c)
      in if ctype c = CIRCLE
         then \<lparr>b_x = js_sub x (radius c), b_y = js_sub y (radius c),
               b_width = js_mul (radius c) (Finite 2), b_height = js_mul (radius c) (Finite 2)\<rparr>
         else \<lparr>b_x = x, b_y = y, b_width = width c, b_height = height c\<rparr>)"

subsection \<open>CollisionSystem\<close>

datatype CollisionEventType = ENTER | STAY | EXIT

record CollisionEvent =
  etype :: CollisionEventType
  entityA :: entity
  entityB :: entity

record CollisionSystem =
  collisionPairs :: "(string, bool) js_map"
  collisionListeners :: "nat list"
  useQuadTree :: bool
  maxObjectsPerNode :: real
  maxLevels :: real

text \<open>The constructor, with its defaults \<^verbatim>\<open>true\<close>, \<^verbatim>\<open>10\<close> and \<^verbatim>\<open>5\<close> as parameters.\<close>

definition new_CollisionSystem :: "bool \<Rightarrow> real \<Rightarrow> real \<Rightarrow> CollisionSystem" where
  "new_CollisionSystem q n l =
     \<lparr>collisionPairs = [], collisionListeners = [], useQuadTree = q,
      maxObjectsPerNode = n, maxLevels = l\<rparr>"

definition CollisionSystem_priority :: real where
  "CollisionSystem_priority = 20"

definition CollisionSystem_filter :: "entity \<Rightarrow> bool" where
  "CollisionSystem_filter e \<longleftrightarrow> hasComponent e ''Transform'' \<and> hasComponent e ''Collider''"

definition addCollisionListener :: "nat \<Rightarrow> CollisionSystem \<Rightarrow> CollisionSystem" where
  "addCollisionListener l cs = cs\<lparr>collisionListeners := collisionListeners cs @ [l]\<rparr>"

definition removeCollisionListener :: "nat \<Rightarrow> CollisionSystem \<Rightarrow> CollisionSystem" where
  "removeCollisionListener l cs =
     (let index = findIndex (\<lambda>v. v = l) (collisionListeners cs)
      in if index \<noteq> - 1
         then cs\<lparr>collisionListeners := splice_remove (nat index) (collisionListeners cs)\<rparr>
         else cs)"

definition checkCircleCircleCollision ::
  "TransformComponent \<Rightarrow> ColliderComponent \<Rightarrow> TransformComponent \<Rightarrow> ColliderComponent \<Rightarrow> bool" where
  "checkCircleCircleCollision transformA colliderA transformB colliderB =
     (let x1 = js_add (tx transformA) (getOffsetX colliderA);
          y1 = js_add (ty transformA) (getOffsetY colliderA);
          r1 = getRadius colliderA;
          x2 = js_add (tx transformB) (getOffsetX colliderB);
          y2 = js_add (ty transformB) (getOffsetY colliderB);
          r2 = getRadius colliderB;
          dx = js_sub x2 x1;
          dy = js_sub y2 y1;
          distance = js_sqrt (js_add (js_mul dx dx) (js_mul dy dy))
      in js_less distance (js_add r1 r2))"

definition checkRectRectCollision ::
  "TransformComponent \<Rightarrow> ColliderComponent \<Rightarrow> TransformComponent \<Rightarrow> ColliderComponent \<Rightarrow> bool" where
  "checkRectRectCollision transformA colliderA transformB colliderB =
     (let boundsA = getBounds colliderA transformA;
          boundsB = getBounds colliderB transformB
      in js_less (b_x boundsA) (js_add (b_x boundsB) (b_width boundsB)) \<and>
         js_less (b_x boundsB) (js_add (b_x boundsA) (b_width boundsA)) \<and>
         js_less (b_y boundsA) (js_add (b_y boundsB) (b_height boundsB)) \<and>
         js_less (b_y boundsB) (js_add (b_y boundsA) (b_height boundsA)))"

definition checkCircleRectCollision ::
  "TransformComponent \<Rightarrow> ColliderComponent \<Rightarrow> TransformComponent \<Rightarrow> ColliderComponent \<Rightarrow> bool" where
  "checkCircleRectCollision circleTransform circleCollider rectTransform rectCollider =
     (let circleX = js_add (tx circleTransform) (getOffsetX circleCollider);
          circleY = js_add (ty circleTransform) (getOffsetY circleCollider);
          r = getRadius circleCollider;
          rectBounds = getBounds rectCollider rectTransform;
          closestX = js_max (b_x rectBounds)
                       (js_min circleX (js_add (b_x rectBounds) (b_width rectBounds)));
          closestY = js_max (b_y rectBounds)
                       (js_min circleY (js_add (b_y rectBounds) (b_height rectBounds)));
          dx = js_sub closestX circleX;
          dy = js_sub closestY circleY;
          distance = js_sqrt (js_add (js_mul dx dx) (js_mul dy dy))
      in js_less distance r)"

text \<open>
  The casts \<^verbatim>\<open>as TransformComponent\<close> and \<^verbatim>\<open>as ColliderComponent\<close> do nothing at run
  time. Calling a collider method on an object of another class raises a \<^verbatim>\<open>TypeError\<close>;
  reading \<^verbatim>\<open>x\<close> or \<^verbatim>\<open>y\<close> of an object that is no transform yields \<^verbatim>\<open>undefined\<close>, the
  arithmetic on it yields NaN, and every comparison with NaN is false.
\<close>

datatype js_error = TypeError

definition asTransform :: "component \<Rightarrow> TransformComponent option" where
  "asTransform c = (case cdata c of Transform t \<Rightarrow> Some t | _ \<Rightarrow> None)"

definition asCollider :: "component \<Rightarrow> ColliderComponent option" where
  "asCollider c = (case cdata c of Collider k \<Rightarrow> Some k | _ \<Rightarrow> None)"

definition checkShapes ::
  "TransformComponent \<Rightarrow> ColliderComponent \<Rightarrow> TransformComponent \<Rightarrow> ColliderComponent \<Rightarrow> bool" where
  "checkShapes transformA colliderA transformB colliderB =
     (let typeA = getColliderType colliderA;
          typeB = getColliderType colliderB
      in if typeA = CIRCLE \<and> typeB = CIRCLE
         then checkCircleCircleCollision transformA colliderA transformB colliderB
         else if typeA = RECTANGLE \<and> typeB = RECTANGLE
         then checkRectRectCollision transformA colliderA transformB colliderB
         else if typeA = CIRCLE
         then checkCircleRectCollision transformA colliderA transformB colliderB
         else checkCircleRectCollision transformB colliderB transformA colliderA)"

definition checkCollision :: "heap \<Rightarrow> entity \<Rightarrow> entity \<Rightarrow> js_error + bool" where
  "checkCollision h a b =
     (case (getComponent h a ''Transform'', getComponent h a ''Collider'',
            getComponent h b ''Transform'', getComponent h b ''Collider'') of
        (Some transformA, Some colliderA, Some transformB, Some colliderB) \<Rightarrow>
          (case (asCollider colliderA, asCollider colliderB) of
             (Some ca, Some cb) \<Rightarrow>
               (case (asTransform transformA, asTransform transformB) of
                  (Some ta, Some tb) \<Rightarrow> Inr (checkShapes ta ca tb cb)
                | _ \<Rightarrow> Inr False)
           | _ \<Rightarrow> Inl TypeError)
      | _ \<Rightarrow> Inr False)"

definition getCollisionPairId :: "entity \<Rightarrow> entity \<Rightarrow> string" where
  "getCollisionPairId a b =
     (let idA = getId a;
          idB = getId b
      in if idA < idB then idA @ '':'' @ idB else idB @ '':'' @ idA)"

text \<open>
  \<^verbatim>\<open>const [idA, idB] = pairId.split(':')\<close>: the first two parts; a missing second part
  is \<^verbatim>\<open>undefined\<close>, which is no key of the registry. The argument \<open>w\<close> is the system's
  \<^verbatim>\<open>this.world\<close>, \<open>None\<close> for \<^verbatim>\<open>null\<close>.
\<close>

definition getEntitiesFromPairId ::
  "'s world option \<Rightarrow> string \<Rightarrow> entity option \<times> entity option" where
  "getEntitiesFromPairId wo pairId =
     (case wo of
        None \<Rightarrow> (None, None)
      | Some w \<Rightarrow>
          (case split CHR '':'' pairId of
             idA # idB # _ \<Rightarrow> (getEntity w idA, getEntity w idB)
           | [idA] \<Rightarrow> (getEntity w idA, None)
           | [] \<Rightarrow> (None, None)))"

text \<open>The inner loop over \<open>j\<close> of the brute-force detection, for a fixed \<^verbatim>\<open>entityA\<close>.\<close>

fun bruteForce_inner ::
  "heap \<Rightarrow> entity \<Rightarrow> entity list \<Rightarrow> (string, bool) js_map \<Rightarrow> js_error + (string, bool) js_map" where
  "bruteForce_inner h entA [] cur = Inr cur"
| "bruteForce_inner h entA (entB # rest) cur =
     (case (Option.bind (getComponent h entA ''Collider'') asCollider,
            Option.bind (getComponent h entB ''Collider'') asCollider) of
        (Some colliderA, Some colliderB) \<Rightarrow>
          (if \<not> canCollideWith colliderA (getCollisionLayer colliderB) \<or>
              \<not> canCollideWith colliderB (getCollisionLayer colliderA)
           then bruteForce_inner h entA rest cur
           else
             (case checkCollision h entA entB of
                Inl err \<Rightarrow> Inl err
              | Inr hit \<Rightarrow>
                  (if hit
                   then bruteForce_inner h entA rest
                          (AList.update (getCollisionPairId entA entB) True cur)
                   else bruteForce_inner h entA rest cur)))
      | _ \<Rightarrow> Inl TypeError)"

fun bruteForceCollisionDetection ::
  "heap \<Rightarrow> entity list \<Rightarrow> (string, bool) js_map \<Rightarrow> js_error + (string, bool) js_map" where
  "bruteForceCollisionDetection h [] cur = Inr cur"
| "bruteForceCollisionDetection h (entA # rest) cur =
     (case bruteForce_inner h entA rest cur of
        Inl err \<Rightarrow> Inl err
      | Inr cur' \<Rightarrow> bruteForceCollisionDetection h rest cur')"

text \<open>
  One call of \<^verbatim>\<open>dispatchCollisionEvent\<close> hands the event to every listener, in the order
  of registration.
\<close>

definition dispatchCollisionEvent :: "CollisionSystem \<Rightarrow> CollisionEvent \<Rightarrow> (nat \<times> CollisionEvent) list" where
  "dispatchCollisionEvent cs ev = map (\<lambda>l. (l, ev)) (collisionListeners cs)"

text \<open>
  The block that each branch of \<^verbatim>\<open>processCollisionEvents\<close> repeats: look the two
  entities up and, if both exist, dispatch an event of the given type.
\<close>

definition pairEvent :: "CollisionEventType \<Rightarrow> 's world option \<Rightarrow> string \<Rightarrow> CollisionEvent list" where
  "pairEvent t wo pairId =
     (case getEntitiesFromPairId wo pairId of
        (Some a, Some b) \<Rightarrow> [\<lparr>etype = t, entityA = a, entityB = b\<rparr>]
      | _ \<Rightarrow> [])"

fun enterStayLoop ::
  "(string, bool) js_map \<Rightarrow> 's world option \<Rightarrow> (string, bool) js_map \<Rightarrow> CollisionEvent list" where
  "enterStayLoop previous wo [] = []"
| "enterStayLoop previous wo ((pairId, v) # rest) =
     (if \<not> map_has previous pairId
      then pairEvent ENTER wo pairId
      else pairEvent STAY wo pairId) @ enterStayLoop previous wo rest"

fun exitLoop ::
  "(string, bool) js_map \<Rightarrow> 's world option \<Rightarrow> (string, bool) js_map \<Rightarrow> CollisionEvent list" where
  "exitLoop current wo [] = []"
| "exitLoop current wo ((pairId, v) # rest) =
     (if \<not> map_has current pairId then pairEvent EXIT wo pairId else [])
       @ exitLoop current wo rest"

text \<open>
  The result lists the calls of \<^verbatim>\<open>dispatchCollisionEvent\<close> in the order in which they
  are made.
\<close>

definition processCollisionEvents ::
  "CollisionSystem \<Rightarrow> 's world option \<Rightarrow> (string, bool) js_map \<Rightarrow> CollisionEvent list" where
  "processCollisionEvents cs wo currentCollisionPairs =
     enterStayLoop (collisionPairs cs) wo currentCollisionPairs
       @ exitLoop currentCollisionPairs wo (collisionPairs cs)"

text \<open>
  \<^verbatim>\<open>CollisionSystem.update\<close>. It returns the system after the tick and the dispatched
  events, or the error that the detection raised.
\<close>

definition CollisionSystem_update ::
  "CollisionSystem \<Rightarrow> 's world option \<Rightarrow> heap \<Rightarrow> real
     \<Rightarrow> js_error + (CollisionSystem \<times> CollisionEvent list)" where
  "CollisionSystem_update cs wo h deltaTime =
     (case wo of
        None \<Rightarrow> Inr (cs, [])
      | Some w \<Rightarrow>
          (let ents = getEntities w;
               collidableEntities = filter (\<lambda>e. CollisionSystem_filter e \<and> isActive e) ents;
               detected =
                 (if useQuadTree cs \<and> real (length collidableEntities) > maxObjectsPerNode cs
                  then bruteForceCollisionDetection h collidableEntities []
                  else bruteForceCollisionDetection h collidableEntities [])
           in case detected of
                Inl err \<Rightarrow> Inl err
              | Inr currentCollisionPairs \<Rightarrow>
                  Inr (cs\<lparr>collisionPairs := currentCollisionPairs\<rparr>,
                       processCollisionEvents cs wo currentCollisionPairs)))"

definition listener_calls :: "CollisionSystem \<Rightarrow> CollisionEvent list \<Rightarrow> (nat \<times> CollisionEvent) list" where
  "listener_calls cs evs = concat (map (dispatchCollisionEvent cs) evs)"

subsection \<open>Reading the effects of a tick\<close>

text \<open>The names of the systems that ran, in the order in which they ran.\<close>

fun ran_names :: "world_effect list \<Rightarrow> string list" where
  "ran_names [] = []"
| "ran_names (Notified l e b # fx) = ran_names fx"
| "ran_names (Ran n es dt # fx) = n # ran_names fx"

text \<open>
  The entity population that each system run was handed, as the list of entity ids, and
  the listener calls among the effects.
\<close>

definition population :: "entity list \<Rightarrow> entity_id list" where
  "population es = map eid es"

fun observed :: "world_effect list \<Rightarrow> entity_id list list" where
  "observed [] = []"
| "observed (Notified l e b # fx) = observed fx"
| "observed (Ran n es dt # fx) = population es # observed fx"

fun notifications :: "world_effect list \<Rightarrow> world_effect list" where
  "notifications [] = []"
| "notifications (Notified l e b # fx) = Notified l e b # notifications fx"
| "notifications (Ran n es dt # fx) = notifications fx"

subsection \<open>Worlds that the public operations can build\<close>

inductive reachable :: "'s world \<Rightarrow> bool" where
  reach_new: "reachable new_World"
| reach_addEntity: "reachable w \<Longrightarrow> reachable (addEntity e w)"
| reach_removeEntity: "reachable w \<Longrightarrow> reachable (removeEntity i w)"
| reach_addEntityListener: "reachable w \<Longrightarrow> reachable (addEntityListener l w)"
| reach_addSystem: "reachable w \<Longrightarrow> reachable (addSystem sys w)"
| reach_removeSystem: "reachable w \<Longrightarrow> reachable (removeSystem is_instance w)"
| reach_clear: "reachable w \<Longrightarrow> reachable (clear w)"
| reach_update: "reachable w \<Longrightarrow> reachable (fst (World_update dt w))"

subsection \<open>The flush as the specification words it\<close>

text \<open>
  The registry after all buffered additions went in, in call order; the registry after
  the buffered removals were taken out of that; one add notification per added entity and
  listener; one removal notification per listener for each buffered id that the registry
  holds after the additions, and none for an id that it does not hold.
\<close>

definition spec_registry_after_additions :: "'s world \<Rightarrow> (entity_id, entity) js_map" where
  "spec_registry_after_additions w =
     fold (\<lambda>e m. AList.update (eid e) e m) (entitiesToAdd w) (entities w)"

definition spec_registry_after_flush :: "'s world \<Rightarrow> (entity_id, entity) js_map" where
  "spec_registry_after_flush w =
     filter (\<lambda>(k, e). k \<notin> set (entitiesToRemove w)) (spec_registry_after_additions w)"

definition spec_add_notifications :: "'s world \<Rightarrow> world_effect list" where
  "spec_add_notifications w =
     concat (map (\<lambda>e. map (\<lambda>l. Notified l e True) (entityListeners w)) (entitiesToAdd w))"

definition spec_removal_notifications :: "'s world \<Rightarrow> world_effect list" where
  "spec_removal_notifications w =
     concat (map (\<lambda>i. case map_of (spec_registry_after_additions w) i of
                         None \<Rightarrow> []
                       | Some e \<Rightarrow> map (\<lambda>l. Notified l e False) (entityListeners w))
                 (entitiesToRemove w))"

subsection \<open>The collision system as the specification words it\<close>

text \<open>
  The collider that an entity exposes, the symmetric layer/mask test, the unordered pairs
  \<open>i < j\<close> of a list, and the ids of the pairs that pass the layer/mask test and the
  shape test: the current tick's colliding set.
\<close>

definition colliderOf :: "heap \<Rightarrow> entity \<Rightarrow> ColliderComponent option" where
  "colliderOf h e = Option.bind (getComponent h e ''Collider'') asCollider"

definition layers_match :: "ColliderComponent \<Rightarrow> ColliderComponent \<Rightarrow> bool" where
  "layers_match ca cb \<longleftrightarrow>
     canCollideWith ca (collisionLayer cb) \<and> canCollideWith cb (collisionLayer ca)"

definition pair_collides :: "heap \<Rightarrow> entity \<Rightarrow> entity \<Rightarrow> bool" where
  "pair_collides h a b =
     (case (colliderOf h a, colliderOf h b) of
        (Some ca, Some cb) \<Rightarrow> layers_match ca cb \<and> checkCollision h a b = Inr True
      | _ \<Rightarrow> False)"

fun unordered_pairs :: "'a list \<Rightarrow> ('a \<times> 'a) list" where
  "unordered_pairs [] = []"
| "unordered_pairs (a # rest) = map (Pair a) rest @ unordered_pairs rest"

definition spec_colliding_ids :: "heap \<Rightarrow> entity list \<Rightarrow> string list" where
  "spec_colliding_ids h es =
     map (\<lambda>(a, b). getCollisionPairId a b)
       (filter (\<lambda>(a, b). pair_collides h a b) (unordered_pairs es))"

definition collidable :: "'s world \<Rightarrow> entity list" where
  "collidable w = filter (\<lambda>e. CollisionSystem_filter e \<and> isActive e) (getEntities w)"

text \<open>
  The narrow phase in the words of the specification, on the reals that the numbers
  denote: the Euclidean distance is the distance of the complex plane; the bounds of a
  collider are its position plus offset and its dimensions; a centre is clamped onto
  bounds coordinate by coordinate; two intervals overlap strictly if each starts before
  the other ends.
\<close>

record region =
  r_x :: real
  r_y :: real
  r_width :: real
  r_height :: real

definition exact_bounds :: "ColliderComponent \<Rightarrow> TransformComponent \<Rightarrow> region" where
  "exact_bounds c t =
     (let x = val (tx t) + val (offsetX c);
          y = val (ty t) + val (offsetY c)
      in if ctype c = CIRCLE
         then \<lparr>r_x = x - val (radius c), r_y = y - val (radius c),
               r_width = val (radius c) * 2, r_height = val (radius c) * 2\<rparr>
         else \<lparr>r_x = x, r_y = y, r_width = val (width c), r_height = val (height c)\<rparr>)"


definition clamp :: "real \<Rightarrow> real \<Rightarrow> real \<Rightarrow> real" where
  "clamp lo hi v = max lo (min v hi)"


definition strictly_overlap :: "real \<Rightarrow> real \<Rightarrow> real \<Rightarrow> real \<Rightarrow> bool" where
  "strictly_overlap lo1 hi1 lo2 hi2 \<longleftrightarrow> lo1 < hi2 \<and> lo2 < hi1"




text \<open>
  A computed number is exactly a given real if it is finite and denotes that real: the
  operation that produced it neither rounded nor overflowed nor met NaN. The three
  predicates below say that of every arithmetic step of a shape test.
\<close>

definition exactly :: "jsnum \<Rightarrow> real \<Rightarrow> bool" where
  "exactly n r \<longleftrightarrow> n = Finite r"



definition bounds_computed_exactly :: "ColliderComponent \<Rightarrow> TransformComponent \<Rightarrow> bool" where
  "bounds_computed_exactly c t \<longleftrightarrow>
     (let e = exact_bounds c t; b = getBounds c t
      in exactly (b_x b) (r_x e) \<and> exactly (b_y b) (r_y e) \<and>
         exactly (b_width b) (r_width e) \<and> exactly (b_height b) (r_height e) \<and>
         exactly (js_add (b_x b) (b_width b)) (r_x e + r_width e) \<and>
         exactly (js_add (b_y b) (b_height b)) (r_y e + r_height e))"




text \<open>
  Two component objects that differ at most in the rotation and the scale of a
  transform, and two heaps whose objects differ at most in that. The function
  \<open>forget_rotation_scale\<close> overwrites the three fields.
\<close>

definition same_placement :: "component \<Rightarrow> component \<Rightarrow> bool" where
  "same_placement c c' \<longleftrightarrow>
     owner c = owner c' \<and>
     (case (cdata c, cdata c') of
        (Transform t, Transform t') \<Rightarrow> tx t = tx t' \<and> ty t = ty t'
      | (d, d') \<Rightarrow> d = d')"

definition differ_only_in_rotation_scale :: "heap \<Rightarrow> heap \<Rightarrow> bool" where
  "differ_only_in_rotation_scale h h' \<longleftrightarrow> (\<forall>r. same_placement (h r) (h' r))"

definition forget_rotation_scale :: "component \<Rightarrow> component" where
  "forget_rotation_scale c =
     c\<lparr>cdata :=
         (case cdata c of
            Transform t \<Rightarrow>
              Transform (t\<lparr>rotation := Finite 0, scaleX := Finite 0, scaleY := Finite 0\<rparr>)
          | d \<Rightarrow> d)\<rparr>"

text \<open>
  The pair id that an event belongs to, and the events of a tick that belong to a given
  pair id. A key is canonical if it is two parts around one separator with the smaller
  part first. The registry is a \<^verbatim>\<open>Map\<close> from each entity's own id, and an id produced
  by \<^verbatim>\<open>uuidv4()\<close> contains no separator. The component that a collidable entity stores
  under \<open>Collider\<close> is a \<^verbatim>\<open>ColliderComponent\<close>. The pairs kept from the last tick form a
  \<^verbatim>\<open>Map\<close> with canonical keys.
\<close>

definition ev_pair_id :: "CollisionEvent \<Rightarrow> string" where
  "ev_pair_id ev = getCollisionPairId (entityA ev) (entityB ev)"

definition events_of :: "string \<Rightarrow> CollisionEvent list \<Rightarrow> CollisionEvent list" where
  "events_of pairId evs = filter (\<lambda>ev. ev_pair_id ev = pairId) evs"

definition canonical_key :: "string \<Rightarrow> bool" where
  "canonical_key k = (case split CHR '':'' k of [a, b] \<Rightarrow> a < b | _ \<Rightarrow> False)"

definition wf_registry :: "'s world \<Rightarrow> bool" where
  "wf_registry w \<longleftrightarrow>
     distinct (map fst (entities w)) \<and>
     (\<forall>(k, e)\<in>set (entities w). eid e = k \<and> CHR '':'' \<notin> set k)"

definition wf_colliders :: "heap \<Rightarrow> 's world \<Rightarrow> bool" where
  "wf_colliders h w \<longleftrightarrow> (\<forall>e\<in>set (collidable w). colliderOf h e \<noteq> None)"

definition pairs_inv :: "CollisionSystem \<Rightarrow> bool" where
  "pairs_inv cs \<longleftrightarrow>
     distinct (map fst (collisionPairs cs)) \<and>
     (\<forall>k\<in>fst ` set (collisionPairs cs). canonical_key k)"

definition both_present :: "'s world \<Rightarrow> string \<Rightarrow> bool" where
  "both_present w pairId =
     (case getEntitiesFromPairId (Some w) pairId of
        (Some a, Some b) \<Rightarrow> True
      | _ \<Rightarrow> False)"

text \<open>
  The event types that the diff of the current ids against the kept pairs prescribes for
  one pair id, and a run of several ticks of the collision system on one world, each tick
  on the heap of that moment, collecting the types of the dispatched events per tick.
\<close>

definition expected_types :: "CollisionSystem \<Rightarrow> 's world \<Rightarrow> string list \<Rightarrow> string \<Rightarrow> CollisionEventType list" where
  "expected_types cs w current pairId =
     (if pairId \<in> set current
      then (if map_has (collisionPairs cs) pairId then [STAY] else [ENTER])
      else (if map_has (collisionPairs cs) pairId \<and> both_present w pairId then [EXIT] else []))"

fun run_ticks ::
  "real \<Rightarrow> CollisionSystem \<Rightarrow> 's world option \<Rightarrow> heap list
     \<Rightarrow> js_error + CollisionEventType list list" where
  "run_ticks dt cs wo [] = Inr []"
| "run_ticks dt cs wo (h # hs) =
     (case CollisionSystem_update cs wo h dt of
        Inl err \<Rightarrow> Inl err
      | Inr (cs', evs) \<Rightarrow>
          (case run_ticks dt cs' wo hs of
             Inl err \<Rightarrow> Inl err
           | Inr rest \<Rightarrow> Inr (map etype evs # rest)))"

subsection \<open>Concrete objects used in the examples\<close>

text \<open>
  An entity \<open>e1\<close> that holds the component object \<open>0\<close> of class \<^verbatim>\<open>HealthComponent\<close>;
  every other reference is a detached \<^verbatim>\<open>HealthComponent\<close>.
\<close>

definition health_store :: store where
  "health_store =
     \<lparr>objs = (\<lambda>r. \<lparr>owner = None, cdata = Other ''Health''\<rparr>)
               (0 := \<lparr>owner = Some ''e1'', cdata = Other ''Health''\<rparr>),
      calls = []\<rparr>"

definition health_entity :: entity where
  "health_entity =
     \<lparr>eid = ''e1'', components = [(''Health'', 0)], tags = [], active = True\<rparr>"

text \<open>A fresh entity and a store whose objects are detached \<^verbatim>\<open>InputComponent\<close>s.\<close>

definition input_store :: store where
  "input_store = \<lparr>objs = (\<lambda>r. \<lparr>owner = None, cdata = Other ''Input''\<rparr>), calls = []\<rparr>"

text \<open>
  Systems without behaviour at the priorities of the example \<open>[50, 5, 20]\<close>, a system
  that requests an addition and a removal on every tick, and a world with one registered
  entity, one buffered addition, one buffered removal of an unknown id and one listener.
\<close>

definition test_system :: "string \<Rightarrow> real \<Rightarrow> unit system" where
  "test_system n p =
     \<lparr>sname = n, priority = p, sys_active = True, has_world = False, sys_state = (),
      sys_init = (\<lambda>st. st), sys_update = (\<lambda>st es dt. ([], st)), sys_destroy = (\<lambda>st. st)\<rparr>"

definition three_systems :: "unit world" where
  "three_systems =
     addSystem (test_system ''C'' 20)
       (addSystem (test_system ''B'' 5)
         (addSystem (test_system ''A'' 50) new_World))"

definition spawner :: "unit system" where
  "spawner =
     \<lparr>sname = ''Spawner'', priority = 5, sys_active = True, has_world = True, sys_state = (),
      sys_init = (\<lambda>st. st),
      sys_update = (\<lambda>st es dt. ([CallAddEntity (new_Entity ''c''), CallRemoveEntity ''a''], st)),
      sys_destroy = (\<lambda>st. st)\<rparr>"

definition busy_world :: "unit world" where
  "busy_world =
     \<lparr>entities = [(''a'', new_Entity ''a'')],
      systems = [spawner, test_system ''Observer'' 20],
      entitiesToAdd = [new_Entity ''b''],
      entitiesToRemove = [''z''],
      entityListeners = [7]\<rparr>"

text \<open>
  The scene of the collision tests: entities \<open>a\<close> and \<open>b\<close>, each with a transform and
  a collider; \<open>a\<close> is a 50 by 50 rectangle at (100, 100). In \<open>rect_scene\<close> the second
  rectangle has default layer and mask and a position of choice, in \<open>layer_scene\<close> the
  rectangles overlap with layer 1, mask 2 and layer 4, mask 8, and in \<open>turned_scene\<close>
  both transforms are rotated and scaled.
\<close>

definition entity_a :: entity where
  "entity_a = \<lparr>eid = ''a'', components = [(''Transform'', 0), (''Collider'', 1)], tags = [], active = True\<rparr>"

definition entity_b :: entity where
  "entity_b = \<lparr>eid = ''b'', components = [(''Transform'', 2), (''Collider'', 3)], tags = [], active = True\<rparr>"

definition scene_world :: "unit world" where
  "scene_world =
     \<lparr>entities = [(''a'', entity_a), (''b'', entity_b)], systems = [], entitiesToAdd = [],
      entitiesToRemove = [], entityListeners = []\<rparr>"

definition scene_heap ::
  "TransformComponent \<Rightarrow> ColliderComponent \<Rightarrow> TransformComponent \<Rightarrow> ColliderComponent \<Rightarrow> heap" where
  "scene_heap ta ca tb cb =
     (\<lambda>r. \<lparr>owner = None, cdata = Other ''Unused''\<rparr>)
       (0 := \<lparr>owner = Some ''a'', cdata = Transform ta\<rparr>,
        1 := \<lparr>owner = Some ''a'', cdata = Collider ca\<rparr>,
        2 := \<lparr>owner = Some ''b'', cdata = Transform tb\<rparr>,
        3 := \<lparr>owner = Some ''b'', cdata = Collider cb\<rparr>)"

definition rect50 :: "int \<Rightarrow> int \<Rightarrow> ColliderComponent" where
  "rect50 layer msk =
     new_ColliderComponent RECTANGLE (Finite 50) (Finite 50) (Finite 0) (Finite 0) (Finite 0)
       False layer msk"

definition rect_scene :: "real \<Rightarrow> real \<Rightarrow> heap" where
  "rect_scene px py =
     scene_heap
       (new_TransformComponent (Finite 100) (Finite 100) (Finite 0) (Finite 1) (Finite 1))
       (rect50 1 4294967295)
       (new_TransformComponent (Finite px) (Finite py) (Finite 0) (Finite 1) (Finite 1))
       (rect50 1 4294967295)"

definition layer_scene :: heap where
  "layer_scene =
     scene_heap
       (new_TransformComponent (Finite 100) (Finite 100) (Finite 0) (Finite 1) (Finite 1))
       (rect50 1 2)
       (new_TransformComponent (Finite 120) (Finite 120) (Finite 0) (Finite 1) (Finite 1))
       (rect50 4 8)"

definition turned_scene :: "real \<Rightarrow> real \<Rightarrow> heap" where
  "turned_scene px py =
     scene_heap
       (new_TransformComponent (Finite 100) (Finite 100) (Finite (1 / 2)) (Finite 2) (Finite 3))
       (rect50 1 4294967295)
       (new_TransformComponent (Finite px) (Finite py) (Finite 1) (Finite (1 / 2)) (Finite 4))
       (rect50 1 4294967295)"










section \<open>Properties\<close>

subsection \<open>JavaScript numbers\<close>

text \<open>
  An integer of magnitude at most \<open>2\<^sup>5\<^sup>3\<close> is a binary64 value: rounding leaves it as
  it is. The odd integer \<open>2\<^sup>5\<^sup>3 + 1\<close> is not: it lies midway between two binary64
  values and is rounded to the even one, \<open>2\<^sup>5\<^sup>3\<close>.
\<close>

lemma round_half_even_of_int [simp]: "round_half_even (of_int m) = m"
  by (simp add: round_half_even_def)

lemma exponent64_eq:
  assumes "2 ^ k \<le> \<bar>x\<bar>" and "\<bar>x\<bar> < 2 ^ Suc k"
  shows "exponent64 x = int k"
proof -
  have pos: "0 < \<bar>x\<bar>" using assms(1) by (smt (verit) zero_less_power)
  have "(2::real) powr real_of_int (int k) \<le> \<bar>x\<bar>"
    using assms(1) by (simp add: powr_realpow)
  moreover have "\<bar>x\<bar> < (2::real) powr real_of_int (int k + 1)"
    using assms(2) by (simp add: powr_realpow powr_add)
  ultimately have "\<lfloor>log 2 \<bar>x\<bar>\<rfloor> = int k"
    using floor_log_eq_powr_iff[of "\<bar>x\<bar>" 2 "int k"] pos by simp
  then show ?thesis by (simp add: exponent64_def)
qed

lemma ulp64_eq:
  assumes "2 ^ k \<le> \<bar>x\<bar>" and "\<bar>x\<bar> < 2 ^ Suc k"
  shows "ulp64 x = (if 52 \<le> k then 2 ^ (k - 52) else 1 / 2 ^ (52 - k))"
proof -
  have e: "exponent64 x = int k" using assms by (rule exponent64_eq)
  show ?thesis
  proof (cases "52 \<le> k")
    case True
    then have "int k - 52 = int (k - 52)" by simp
    then show ?thesis using True by (simp add: ulp64_def e powr_realpow del: of_nat_diff)
  next
    case False
    then have "int k - 52 = - int (52 - k)" by simp
    then have "(2::real) powr real_of_int (int k - 52) = 1 / 2 ^ (52 - k)"
      by (simp add: powr_minus powr_realpow inverse_eq_divide del: of_nat_diff)
    then show ?thesis using False by (simp add: ulp64_def e)
  qed
qed

lemma fl_of_int:
  assumes "\<bar>n\<bar> \<le> 2 ^ 53"
  shows "fl (of_int n) = of_int n"
proof (cases "n = 0")
  case True
  then show ?thesis by (simp add: fl_def)
next
  case False
  define a where "a = nat \<bar>n\<bar>"
  have a: "1 \<le> a" "a \<le> 2 ^ 53" "\<bar>real_of_int n\<bar> = real a"
    using False assms by (auto simp: a_def)
  define k where "k = nat \<lfloor>log 2 (real a)\<rfloor>"
  have fl_k: "\<lfloor>log 2 (real a)\<rfloor> = int k"
  proof -
    have "0 \<le> log 2 (real a)" using a(1) by simp
    then show ?thesis by (simp add: k_def)
  qed
  from a(1) have apos: "0 < real a" by simp
  from fl_k floor_log_eq_powr_iff[OF apos, of 2 "int k"]
  have "(2::real) powr real_of_int (int k) \<le> real a" "real a < (2::real) powr real_of_int (int k + 1)"
    by simp_all
  then have lo: "(2::real) ^ k \<le> real a" and hi: "real a < 2 ^ Suc k"
    by (simp_all add: powr_realpow powr_add)
  have k53: "k \<le> 53"
  proof (rule ccontr)
    assume "\<not> k \<le> 53"
    then have "54 \<le> k" by simp
    then have "(2::real) ^ 54 \<le> 2 ^ k" by (intro power_increasing) simp_all
    with lo have "(2::real) ^ 54 \<le> real a" by linarith
    moreover from a(2) have "real a \<le> 2 ^ 53"
      by (metis of_nat_le_iff of_nat_numeral of_nat_power)
    ultimately show False by simp
  qed
  have u: "ulp64 (of_int n) = (if 52 \<le> k then 2 ^ (k - 52) else 1 / 2 ^ (52 - k))"
    using lo hi by (intro ulp64_eq) (simp_all add: a(3))
  show ?thesis
  proof (cases "52 \<le> k")
    case small: False
    then have "real_of_int n / ulp64 (of_int n) = of_int (n * 2 ^ (52 - k))"
      by (simp add: u)
    then have "round_half_even (real_of_int n / ulp64 (of_int n)) = n * 2 ^ (52 - k)"
      by (simp only: round_half_even_of_int)
    then show ?thesis using False small by (simp add: fl_def u)
  next
    case True
    show ?thesis
    proof (cases "k = 52")
      case True
      then show ?thesis using False by (simp add: fl_def u)
    next
      case k: False
      with True k53 have k: "k = 53" by simp
      with lo have "(2::real) ^ 53 \<le> real a" by simp
      moreover from a(2) have "real a \<le> 2 ^ 53"
        by (metis of_nat_le_iff of_nat_numeral of_nat_power)
      ultimately have "real a = 2 ^ 53" by linarith
      then have "\<bar>n\<bar> = 2 ^ 53" using a(3)
        by (metis of_int_abs of_int_eq_iff of_int_numeral of_int_power)
      then have "n = 2 * 4503599627370496 \<or> n = 2 * (- 4503599627370496)"
        by (simp add: abs_if split: if_splits)
      then obtain m where m: "n = 2 * m" by blast
      have uu: "ulp64 (of_int n) = 2" by (simp add: u k)
      have "real_of_int n / 2 = of_int m" by (simp add: m)
      then have "round_half_even (real_of_int n / 2) = m"
        by (simp only: round_half_even_of_int)
      then have "fl (of_int n) = 2 * of_int m" using False by (simp add: fl_def uu)
      also have "\<dots> = of_int n" by (simp add: m)
      finally show ?thesis .
    qed
  qed
qed

lemma round64_of_int:
  assumes "\<bar>n\<bar> \<le> 2 ^ 53"
  shows "round64 (of_int n) = Finite (of_int n)"
proof -
  have "\<bar>real_of_int n\<bar> \<le> 2 ^ 53"
    using assms by (metis of_int_abs of_int_le_iff of_int_numeral of_int_power)
  moreover have "(2::real) ^ 53 \<le> max_double" by (simp add: max_double_def)
  ultimately have "\<bar>real_of_int n\<bar> \<le> max_double" by linarith
  then show ?thesis by (auto simp: round64_def fl_of_int[OF assms] Let_def)
qed

lemma round64_numeral:
  "(numeral n :: int) \<le> 9007199254740992 \<Longrightarrow> round64 (numeral n) = Finite (numeral n)"
  using round64_of_int[of "numeral n"] by simp


lemma round64_0: "round64 0 = Finite 0"
  using round64_of_int[of 0] by simp

lemma round64_1: "round64 1 = Finite 1"
  using round64_of_int[of 1] by simp



lemma round64_far: "round64 (9007199254740992 + 50) = Finite 9007199254741042"
proof -
  have u: "ulp64 9007199254741042 = 2"
    using ulp64_eq[of 53 9007199254741042] by simp
  have "round_half_even (9007199254741042 / 2) = 4503599627370521"
    using round_half_even_of_int[of 4503599627370521] by simp
  then have "fl 9007199254741042 = 9007199254741042"
    by (simp add: fl_def u)
  then show ?thesis by (simp add: round64_def max_double_def Let_def)
qed

lemma round64_sum2:
  assumes "\<bar>a + b\<bar> \<le> 2 ^ 53"
  shows "round64 (of_int a + of_int b) = Finite (of_int a + of_int b)"
  using round64_of_int[OF assms] by simp

lemma round64_sum3:
  assumes "\<bar>a + b + c\<bar> \<le> 2 ^ 53"
  shows "round64 (of_int a + of_int b + of_int c) = Finite (of_int a + of_int b + of_int c)"
  using round64_of_int[OF assms] by simp





subsection \<open>Containers\<close>

lemma map_has_iff: "map_has m k \<longleftrightarrow> map_of m k \<noteq> None"
  by (simp add: map_has_def map_of_eq_None_iff)

subsection \<open>Entity and its components\<close>

lemma addComponent_components:
  "components (fst (addComponent r e s)) = AList.update (getType (objs s r)) r (components e)"
  by (simp add: addComponent_def Let_def)

lemma addComponent_hasComponent:
  "hasComponent (fst (addComponent r e s)) (getType (objs s r))"
  by (simp add: addComponent_def Let_def hasComponent_def map_has_def dom_update image_iff)

lemma addComponent_getComponent:
  "getComponent (objs (snd (addComponent r e s))) (fst (addComponent r e s)) (getType (objs s r))
     = Some (setOwner (Some (eid e)) (objs s r))"
  by (simp add: addComponent_def Let_def getComponent_def update_conv')

lemma addComponent_owner:
  "getOwner (objs (snd (addComponent r e s)) r) = Some (eid e)"
  by (simp add: addComponent_def Let_def getOwner_def setOwner_def)

text \<open>
  \<^verbatim>\<open>addComponent\<close> writes to no component object other than the one it attaches; the
  object it replaces is left as it was.
\<close>

lemma addComponent_frame:
  "r' \<noteq> r \<Longrightarrow> objs (snd (addComponent r e s)) r' = objs s r'"
  by (simp add: addComponent_def Let_def)

lemma addComponent_calls:
  "calls (snd (addComponent r e s)) = calls s @ [CallGetType r, CallSetOwner r (Some (eid e))]"
  by (simp add: addComponent_def Let_def)

lemma removeComponent_calls:
  "calls (snd (removeComponent t e s)) =
     (case map_of (components e) t of
        None \<Rightarrow> calls s
      | Some r \<Rightarrow> calls s @ [CallSetOwner r None])"
  by (simp add: removeComponent_def map_has_iff split: option.splits)

lemma removeComponent_owner:
  "map_of (components e) t = Some r \<Longrightarrow> getOwner (objs (snd (removeComponent t e s)) r) = None"
  by (simp add: removeComponent_def map_has_iff getOwner_def setOwner_def)

text \<open>
  C6. Attaching a second component under a type identifier that is in use replaces the
  first one in the entity and sets the owner of the new one, but the replaced component
  keeps its owner: entity \<open>e1\<close> holds component \<open>0\<close> under \<open>Health\<close>; after
  \<^verbatim>\<open>addComponent\<close> of component \<open>1\<close> of the same type, \<open>e1\<close> holds \<open>1\<close>, component
  \<open>1\<close> is owned by \<open>e1\<close>, and component \<open>0\<close>, which no entity holds any more, still names
  \<open>e1\<close> as its owner.
\<close>

theorem addComponent_keeps_replaced_owner:
  "map_of (components health_entity) ''Health'' = Some 0 \<and>
   getOwner (objs health_store 0) = Some ''e1'' \<and>
   getType (objs health_store 1) = ''Health'' \<and>
   map_of (components (fst (addComponent 1 health_entity health_store))) ''Health'' = Some 1 \<and>
   getOwner (objs (snd (addComponent 1 health_entity health_store)) 1) = Some ''e1'' \<and>
   getOwner (objs (snd (addComponent 1 health_entity health_store)) 0) = Some ''e1''"
  by (simp add: addComponent_def health_store_def health_entity_def getType_def getOwner_def
      setOwner_def Let_def)

text \<open>
  C7. \<^verbatim>\<open>addComponent\<close> and \<^verbatim>\<open>removeComponent\<close> never call the lifecycle hooks: attaching
  the \<^verbatim>\<open>InputComponent\<close> \<open>0\<close> to a fresh entity and detaching it again calls
  \<^verbatim>\<open>getType\<close>, \<^verbatim>\<open>setOwner(this)\<close> and \<^verbatim>\<open>setOwner(null)\<close> on it, and neither
  \<^verbatim>\<open>init\<close> nor \<^verbatim>\<open>destroy\<close>.
\<close>

theorem addComponent_removeComponent_call_no_hook:
  "(let (e, s) = addComponent 0 (new_Entity ''e1'') input_store;
        (e', s') = removeComponent ''Input'' e s
    in hasComponent e ''Input'' \<and> \<not> hasComponent e' ''Input'' \<and>
       calls s = [CallGetType 0, CallSetOwner 0 (Some ''e1'')] \<and>
       calls s' = [CallGetType 0, CallSetOwner 0 (Some ''e1''), CallSetOwner 0 None] \<and>
       CallInit 0 \<notin> set (calls s') \<and> CallDestroy 0 \<notin> set (calls s'))"
  by (simp add: addComponent_def removeComponent_def new_Entity_def input_store_def
      getType_def setOwner_def hasComponent_def map_has_def Let_def)

subsection \<open>World: the system list\<close>

lemma findIndex_takeWhile:
  "findIndex P xs = (if \<exists>x\<in>set xs. P x then int (length (takeWhile (\<lambda>x. \<not> P x) xs)) else - 1)"
  by (induction xs) (auto simp: Let_def)

lemma splice_insert_takeWhile:
  "splice_insert (length (takeWhile Q xs)) v xs = takeWhile Q xs @ v # dropWhile Q xs"
  by (simp add: splice_insert_def takeWhile_eq_take[symmetric] dropWhile_eq_drop[symmetric])

lemma systems_addSystem:
  "systems (addSystem sys w) =
     takeWhile (\<lambda>s. \<not> priority sys < priority s) (systems w) @
       sys\<lparr>has_world := True, sys_state := sys_init sys (sys_state sys)\<rparr> #
       dropWhile (\<lambda>s. \<not> priority sys < priority s) (systems w)"
proof (cases "\<exists>s\<in>set (systems w). priority sys < priority s")
  case True
  then show ?thesis
    by (simp add: addSystem_def Let_def getPriority_def findIndex_takeWhile splice_insert_takeWhile)
next
  case False
  then show ?thesis
    by (simp add: addSystem_def Let_def getPriority_def findIndex_takeWhile splice_insert_def
        takeWhile_eq_all_conv[THEN iffD2] dropWhile_eq_Nil_conv[THEN iffD2])
qed

lemma sorted_dropWhile_gt:
  fixes f :: "'a \<Rightarrow> real"
  assumes "sorted (map f xs)"
  shows "\<forall>s\<in>set (dropWhile (\<lambda>s. \<not> p < f s) xs). p < f s"
  using assms
proof (induction xs)
  case Nil
  then show ?case by simp
next
  case (Cons x xs)
  from Cons.prems have tail: "sorted (map f xs)" and le: "\<forall>s\<in>set xs. f x \<le> f s"
    by simp_all
  show ?case
  proof (cases "p < f x")
    case True
    have "\<forall>s\<in>set xs. p < f s"
    proof
      fix s assume "s \<in> set xs"
      with le have "f x \<le> f s" by (rule bspec)
      with True show "p < f s" by linarith
    qed
    with True show ?thesis by simp
  next
    case False
    then have "dropWhile (\<lambda>s. \<not> p < f s) (x # xs) = dropWhile (\<lambda>s. \<not> p < f s) xs"
      by simp
    with Cons.IH[OF tail] show ?thesis by (simp only:)
  qed
qed

lemma set_takeWhile_le:
  fixes f :: "'a \<Rightarrow> real"
  shows "\<forall>s\<in>set (takeWhile (\<lambda>s. \<not> p < f s) xs). f s \<le> p"
  by (auto dest: set_takeWhileD)

lemma sorted_insert_split:
  fixes f :: "'a \<Rightarrow> real"
  assumes "sorted (map f xs)"
  shows "sorted (map f (takeWhile (\<lambda>s. \<not> p < f s) xs) @ p # map f (dropWhile (\<lambda>s. \<not> p < f s) xs))"
proof -
  let ?Q = "\<lambda>s. \<not> p < f s"
  have "sorted (map f (takeWhile ?Q xs @ dropWhile ?Q xs))" using assms by simp
  then have s: "sorted (map f (takeWhile ?Q xs))" "sorted (map f (dropWhile ?Q xs))"
    unfolding map_append sorted_append by blast+
  have pre: "\<forall>a\<in>set (takeWhile ?Q xs). f a \<le> p"
    by (rule set_takeWhile_le)
  have post: "\<forall>b\<in>set (dropWhile ?Q xs). p < f b"
    by (rule sorted_dropWhile_gt[OF assms])
  have "\<forall>y\<in>set (map f (dropWhile ?Q xs)). p \<le> y"
  proof
    fix y
    assume "y \<in> set (map f (dropWhile ?Q xs))"
    then obtain b where b: "b \<in> set (dropWhile ?Q xs)" "y = f b" by auto
    from post b(1) have "p < f b" by (rule bspec)
    with b(2) show "p \<le> y" by linarith
  qed
  with s(2) have right: "sorted (p # map f (dropWhile ?Q xs))"
    by (simp only: sorted_simps simp_thms)
  have "\<forall>x\<in>set (map f (takeWhile ?Q xs)). \<forall>y\<in>set (p # map f (dropWhile ?Q xs)). x \<le> y"
  proof (intro ballI)
    fix x y
    assume "x \<in> set (map f (takeWhile ?Q xs))" and y: "y \<in> set (p # map f (dropWhile ?Q xs))"
    then obtain a where a: "a \<in> set (takeWhile ?Q xs)" "x = f a" by auto
    from pre a(1) have xa: "f a \<le> p" by (rule bspec)
    from y consider "y = p" | b where "b \<in> set (dropWhile ?Q xs)" "y = f b" by auto
    then show "x \<le> y"
    proof cases
      case 1
      with a xa show ?thesis by simp
    next
      case 2
      from post 2(1) have "p < f b" by (rule bspec)
      with a xa 2(2) show ?thesis by linarith
    qed
  qed
  with s(1) right show ?thesis
    unfolding sorted_append by blast
qed

lemma addSystem_sorted:
  assumes "sorted (map priority (systems w))"
  shows "sorted (map priority (systems (addSystem sys w)))"
  using sorted_insert_split[OF assms, of "priority sys"] by (simp add: systems_addSystem)

lemma sorted_splice_remove:
  "sorted (map f xs) \<Longrightarrow> sorted (map f (splice_remove i xs))"
proof (induction xs arbitrary: i)
  case Nil
  then show ?case by (simp add: splice_remove_def)
next
  case (Cons x xs)
  show ?case
  proof (cases i)
    case 0
    with Cons.prems show ?thesis by (simp add: splice_remove_def)
  next
    case (Suc k)
    have "set (splice_remove k xs) \<subseteq> set xs"
      unfolding splice_remove_def using set_take_subset[of k xs] set_drop_subset[of "Suc k" xs]
      by auto
    with Cons.prems Cons.IH[of k] Suc show ?thesis
      by (auto simp: splice_remove_def)
  qed
qed

lemma removeSystem_sorted:
  "sorted (map priority (systems w)) \<Longrightarrow> sorted (map priority (systems (removeSystem P w)))"
  by (simp add: removeSystem_def Let_def sorted_splice_remove)

lemma runSystems_priorities:
  "runSystems dt ss w = (ss', w', fx) \<Longrightarrow> map priority ss' = map priority ss"
  by (induction ss arbitrary: w ss' w' fx) (auto split: if_splits prod.splits)

lemma runSystems_names:
  "runSystems dt ss w = (ss', w', fx) \<Longrightarrow> ran_names fx = map sname (filter sys_active ss)"
  by (induction ss arbitrary: w ss' w' fx) (auto split: if_splits prod.splits)

lemma apply_calls_systems: "systems (apply_calls cs w) = systems w"
proof (induction cs arbitrary: w)
  case Nil
  then show ?case by simp
next
  case (Cons c cs)
  have "systems (apply_call c w) = systems w"
    by (cases c) (simp_all add: addEntity_def removeEntity_def split: option.splits)
  with Cons.IH[of "apply_call c w"] show ?case by simp
qed

lemma World_update_unfold:
  "World_update dt w =
     (fst (updateSystems dt (fst (processRemovals (fst (processAdditions w))))),
      snd (processAdditions w) @ snd (processRemovals (fst (processAdditions w)))
        @ snd (updateSystems dt (fst (processRemovals (fst (processAdditions w))))))"
  by (simp add: World_update_def split_def Let_def)

lemma processAdditions_systems: "systems (fst (processAdditions w)) = systems w"
  by (simp add: processAdditions_def split_def Let_def)

lemma processRemovals_systems: "systems (fst (processRemovals w)) = systems w"
  by (simp add: processRemovals_def split_def Let_def)

lemma updateSystems_priorities:
  "map priority (systems (fst (updateSystems dt w))) = map priority (systems w)"
proof -
  obtain ss w' fx where c: "runSystems dt (systems w) w = (ss, w', fx)"
    by (cases "runSystems dt (systems w) w")
  then show ?thesis
    using runSystems_priorities[OF c] by (simp add: updateSystems_def)
qed

lemma World_update_systems:
  "map priority (systems (fst (World_update dt w))) = map priority (systems w)"
  by (simp add: World_update_unfold updateSystems_priorities processRemovals_systems
      processAdditions_systems)

lemma reachable_sorted: "reachable w \<Longrightarrow> sorted (map priority (systems w))"
proof (induction rule: reachable.induct)
  case reach_new
  then show ?case by (simp add: new_World_def)
next
  case (reach_addSystem w sys)
  then show ?case by (simp add: addSystem_sorted)
next
  case (reach_removeSystem w is_instance)
  then show ?case by (simp add: removeSystem_sorted)
next
  case (reach_update w dt)
  then show ?case by (simp add: World_update_systems)
qed (simp_all add: addEntity_def removeEntity_def addEntityListener_def clear_def)

subsection \<open>World: one tick\<close>

lemma flushAdditions_eq:
  "flushAdditions ls es m =
     (fold (\<lambda>e m. AList.update (eid e) e m) es m,
      concat (map (\<lambda>e. map (\<lambda>l. Notified l e True) ls) es))"
  by (induction es arbitrary: m) (simp_all add: getId_def)

lemma flushRemovals_eq:
  assumes "distinct is"
  shows "flushRemovals ls is m =
     (filter (\<lambda>(k, e). k \<notin> set is) m,
      concat (map (\<lambda>i. case map_of m i of
                          None \<Rightarrow> []
                        | Some e \<Rightarrow> map (\<lambda>l. Notified l e False) ls) is))"
  using assms
proof (induction "is" arbitrary: m)
  case Nil
  then show ?case by simp
next
  case (Cons i "is")
  from Cons.prems have d: "distinct is" and ni: "i \<notin> set is" by simp_all
  show ?case
  proof (cases "map_of m i")
    case None
    then have "i \<notin> fst ` set m" by (simp add: map_of_eq_None_iff)
    then have "filter (\<lambda>(k, e). k \<notin> set (i # is)) m = filter (\<lambda>(k, e). k \<notin> set is) m"
      by (intro filter_cong) force+
    with None Cons.IH[OF d, of m] show ?thesis by simp
  next
    case (Some e)
    have f: "filter (\<lambda>(k, e). k \<notin> set is) (AList.delete i m) = filter (\<lambda>(k, e). k \<notin> set (i # is)) m"
      by (induction m) auto
    have "map (\<lambda>j. case map_of (AList.delete i m) j of
                          None \<Rightarrow> []
                        | Some e \<Rightarrow> map (\<lambda>l. Notified l e False) ls) is
        = map (\<lambda>j. case map_of m j of
                          None \<Rightarrow> []
                        | Some e \<Rightarrow> map (\<lambda>l. Notified l e False) ls) is"
    proof (intro map_cong refl)
      fix j assume "j \<in> set is"
      with ni have "j \<noteq> i" by blast
      then show "(case map_of (AList.delete i m) j of
                          None \<Rightarrow> []
                        | Some e \<Rightarrow> map (\<lambda>l. Notified l e False) ls)
        = (case map_of m j of
                          None \<Rightarrow> []
                        | Some e \<Rightarrow> map (\<lambda>l. Notified l e False) ls)"
        by simp
    qed
    with Some f Cons.IH[OF d, of "AList.delete i m"] show ?thesis by simp
  qed
qed

lemma processAdditions_eq:
  "processAdditions w =
     (w\<lparr>entities := spec_registry_after_additions w, entitiesToAdd := []\<rparr>,
      spec_add_notifications w)"
  by (cases "entitiesToAdd w = []")
    (simp_all add: processAdditions_def flushAdditions_eq spec_registry_after_additions_def
      spec_add_notifications_def)

lemma processRemovals_eq:
  assumes "distinct (entitiesToRemove w)"
  shows "processRemovals w =
     (w\<lparr>entities := filter (\<lambda>(k, e). k \<notin> set (entitiesToRemove w)) (entities w),
        entitiesToRemove := []\<rparr>,
      concat (map (\<lambda>i. case map_of (entities w) i of
                          None \<Rightarrow> []
                        | Some e \<Rightarrow> map (\<lambda>l. Notified l e False) (entityListeners w))
                  (entitiesToRemove w)))"
  by (cases "entitiesToRemove w = []")
    (simp_all add: processRemovals_def flushRemovals_eq[OF assms])

lemma update_same_population:
  assumes "map_of m i = Some e" and "eid v = eid e"
  shows "map (eid \<circ> snd) (AList.update i v m) = map (eid \<circ> snd) m"
  using assms by (induction m) (auto split: if_splits)

lemma apply_call_population:
  "population (getEntities (apply_call c w)) = population (getEntities w)"
proof (cases c)
  case (CallSetActive i b)
  show ?thesis
  proof (cases "getEntity w i")
    case None
    with CallSetActive show ?thesis by simp
  next
    case (Some e)
    then have "map_of (entities w) i = Some e" by (simp add: getEntity_def)
    from update_same_population[OF this, of "setActive b e"] Some CallSetActive
    show ?thesis
      by (simp add: population_def getEntities_def map_values_def setActive_def)
  qed
qed (simp_all add: addEntity_def removeEntity_def getEntities_def)

lemma apply_calls_population:
  "population (getEntities (apply_calls cs w)) = population (getEntities w)"
  by (induction cs arbitrary: w) (simp_all add: apply_call_population)

lemma runSystems_population:
  "runSystems dt ss w = (ss', w', fx) \<Longrightarrow>
     notifications fx = [] \<and>
     observed fx = replicate (length (filter sys_active ss)) (population (getEntities w)) \<and>
     population (getEntities w') = population (getEntities w)"
proof (induction ss arbitrary: w ss' w' fx)
  case Nil
  then show ?case by simp
next
  case (Cons sys rest)
  show ?case
  proof (cases "sys_active sys")
    case False
    with Cons.prems obtain r where "runSystems dt rest w = (r, w', fx)"
      by (auto split: prod.splits)
    from Cons.IH[OF this] False show ?thesis by simp
  next
    case True
    obtain cs st where u: "sys_update sys (sys_state sys) (getEntities w) dt = (cs, st)"
      by (cases "sys_update sys (sys_state sys) (getEntities w) dt")
    obtain r w2 fx2 where r: "runSystems dt rest (apply_calls cs w) = (r, w2, fx2)"
      by (cases "runSystems dt rest (apply_calls cs w)")
    from Cons.prems True u r have eq: "w' = w2" "fx = Ran (sname sys) (getEntities w) dt # fx2"
      by simp_all
    from Cons.IH[OF r] eq True show ?thesis
      by (simp add: apply_calls_population)
  qed
qed

lemma updateSystems_population:
  "notifications (snd (updateSystems dt w)) = [] \<and>
   ran_names (snd (updateSystems dt w)) = map sname (filter sys_active (systems w)) \<and>
   observed (snd (updateSystems dt w)) =
     replicate (length (filter sys_active (systems w))) (population (getEntities w)) \<and>
   population (getEntities (fst (updateSystems dt w))) = population (getEntities w)"
proof -
  obtain ss w' fx where r: "runSystems dt (systems w) w = (ss, w', fx)"
    by (cases "runSystems dt (systems w) w")
  from runSystems_population[OF r] runSystems_names[OF r] r show ?thesis
    by (simp add: updateSystems_def getEntities_def)
qed

lemma World_update_effects:
  assumes "distinct (entitiesToRemove w)"
  shows "\<exists>runs.
           snd (World_update dt w) =
             spec_add_notifications w @ spec_removal_notifications w @ runs \<and>
           notifications runs = [] \<and>
           ran_names runs = map sname (filter sys_active (systems w)) \<and>
           observed runs =
             replicate (length (filter sys_active (systems w)))
               (population (map_values (spec_registry_after_flush w))) \<and>
           population (getEntities (fst (World_update dt w))) =
             population (map_values (spec_registry_after_flush w))"
proof -
  define w1 where "w1 = w\<lparr>entities := spec_registry_after_additions w, entitiesToAdd := []\<rparr>"
  define w2 where "w2 = w1\<lparr>entities := spec_registry_after_flush w, entitiesToRemove := []\<rparr>"
  have pa: "processAdditions w = (w1, spec_add_notifications w)"
    by (simp add: processAdditions_eq w1_def)
  have d: "distinct (entitiesToRemove w1)" using assms by (simp add: w1_def)
  have pr: "processRemovals w1 = (w2, spec_removal_notifications w)"
    unfolding processRemovals_eq[OF d]
    by (simp add: w1_def w2_def spec_registry_after_flush_def spec_removal_notifications_def
        cong: option.case_cong)
  have e: "getEntities w2 = map_values (spec_registry_after_flush w)"
    and s: "systems w2 = systems w"
    by (simp_all add: w2_def w1_def getEntities_def)
  from updateSystems_population[of dt w2] show ?thesis
    unfolding World_update_unfold pa pr fst_conv snd_conv e s by blast
qed

lemma ran_names_append: "ran_names (xs @ ys) = ran_names xs @ ran_names ys"
  by (induction xs rule: ran_names.induct) simp_all

lemma ran_names_Notified: "ran_names (map (\<lambda>l. Notified l e b) ls) = []"
  by (induction ls) simp_all

lemma ran_names_concat:
  "(\<And>x. x \<in> set xs \<Longrightarrow> ran_names (g x) = []) \<Longrightarrow> ran_names (concat (map g xs)) = []"
  by (induction xs) (simp_all add: ran_names_append)

lemma ran_names_spec_add: "ran_names (spec_add_notifications w) = []"
  unfolding spec_add_notifications_def
  by (rule ran_names_concat) (rule ran_names_Notified)

lemma ran_names_spec_removal: "ran_names (spec_removal_notifications w) = []"
  unfolding spec_removal_notifications_def
  by (rule ran_names_concat) (simp add: ran_names_Notified split: option.splits)

lemma set_add_distinct: "distinct s \<Longrightarrow> distinct (set_add v s)"
  by (simp add: set_add_def)

lemma apply_calls_distinct:
  "distinct (entitiesToRemove w) \<Longrightarrow> distinct (entitiesToRemove (apply_calls cs w))"
proof (induction cs arbitrary: w)
  case Nil
  then show ?case by simp
next
  case (Cons c cs)
  from Cons.prems have "distinct (entitiesToRemove (apply_call c w))"
    by (cases c) (simp_all add: addEntity_def removeEntity_def set_add_distinct split: option.splits)
  with Cons.IH show ?case by simp
qed

lemma runSystems_distinct:
  "runSystems dt ss w = (ss', w', fx) \<Longrightarrow> distinct (entitiesToRemove w) \<Longrightarrow>
     distinct (entitiesToRemove w')"
proof (induction ss arbitrary: w ss' w' fx)
  case Nil
  then show ?case by simp
next
  case (Cons sys rest)
  show ?case
  proof (cases "sys_active sys")
    case False
    with Cons.prems obtain r where "runSystems dt rest w = (r, w', fx)"
      by (auto split: prod.splits)
    from Cons.IH[OF this Cons.prems(2)] show ?thesis .
  next
    case True
    obtain cs st where u: "sys_update sys (sys_state sys) (getEntities w) dt = (cs, st)"
      by (cases "sys_update sys (sys_state sys) (getEntities w) dt")
    obtain r w2 fx2 where r: "runSystems dt rest (apply_calls cs w) = (r, w2, fx2)"
      by (cases "runSystems dt rest (apply_calls cs w)")
    from Cons.prems True u r have eq: "w' = w2" by simp
    from Cons.IH[OF r apply_calls_distinct[OF Cons.prems(2)]] eq show ?thesis by simp
  qed
qed

lemma World_update_distinct:
  "distinct (entitiesToRemove (fst (World_update dt w)))"
proof -
  let ?w2 = "fst (processRemovals (fst (processAdditions w)))"
  have d: "distinct (entitiesToRemove ?w2)"
    by (simp add: processRemovals_def processAdditions_def split_def Let_def)
  obtain ss w' fx where r: "runSystems dt (systems ?w2) ?w2 = (ss, w', fx)"
    by (cases "runSystems dt (systems ?w2) ?w2")
  from runSystems_distinct[OF r d] r show ?thesis
    by (simp add: World_update_unfold updateSystems_def)
qed

lemma reachable_distinct: "reachable w \<Longrightarrow> distinct (entitiesToRemove w)"
proof (induction rule: reachable.induct)
  case (reach_update w dt)
  show ?case by (rule World_update_distinct)
qed (simp_all add: new_World_def addEntity_def removeEntity_def addEntityListener_def
      addSystem_def removeSystem_def clear_def set_add_distinct Let_def)

text \<open>
  An example: the world holds \<open>a\<close>, has \<open>b\<close> buffered for addition and the unknown
  id \<open>z\<close> buffered for removal. The spawner asks for entity \<open>c\<close> and for the removal
  of \<open>a\<close> during the tick; both systems are still handed \<open>a\<close> and \<open>b\<close>, and the
  requests sit in the buffers afterwards.
\<close>

lemma World_update_example:
  "snd (World_update 1 busy_world) =
     [Notified 7 (new_Entity ''b'') True,
      Ran ''Spawner'' [new_Entity ''a'', new_Entity ''b''] 1,
      Ran ''Observer'' [new_Entity ''a'', new_Entity ''b''] 1] \<and>
   entities (fst (World_update 1 busy_world)) =
     [(''a'', new_Entity ''a''), (''b'', new_Entity ''b'')] \<and>
   entitiesToAdd (fst (World_update 1 busy_world)) = [new_Entity ''c''] \<and>
   entitiesToRemove (fst (World_update 1 busy_world)) = [''a'']"
  by (simp add: World_update_def processAdditions_def processRemovals_def updateSystems_def
      busy_world_def spawner_def test_system_def new_Entity_def getId_def getEntities_def
      map_values_def addEntity_def removeEntity_def set_add_def)



text \<open>
  C3. In every world built by the public operations the system list is sorted by
  priority. \<^verbatim>\<open>addSystem\<close> splits the list in two, puts the initialised newcomer between
  the parts, and leaves the parts as they were: every system before the newcomer has a
  priority that is at most the newcomer's (so an existing system of equal priority stays
  ahead of it), every system after it has a strictly greater priority, and the list is
  sorted again. \<^verbatim>\<open>World.update\<close> runs the active systems in the order of the list.
\<close>

theorem systems_priority_order:
  assumes "reachable w"
  shows "sorted (map priority (systems w)) \<and>
         (\<exists>pre post.
            systems w = pre @ post \<and>
            systems (addSystem sys w) =
              pre @ sys\<lparr>has_world := True, sys_state := sys_init sys (sys_state sys)\<rparr> # post \<and>
            (\<forall>s\<in>set pre. priority s \<le> priority sys) \<and>
            (\<forall>s\<in>set post. priority sys < priority s)) \<and>
         sorted (map priority (systems (addSystem sys w))) \<and>
         ran_names (snd (World_update dt w)) = map sname (filter sys_active (systems w))"
proof -
  let ?Q = "\<lambda>s. \<not> priority sys < priority s"
  have srt: "sorted (map priority (systems w))" using assms by (rule reachable_sorted)
  have "systems w = takeWhile ?Q (systems w) @ dropWhile ?Q (systems w)" by simp
  moreover note systems_addSystem[of sys w]
  moreover have "\<forall>s\<in>set (takeWhile ?Q (systems w)). priority s \<le> priority sys"
    by (rule set_takeWhile_le)
  moreover have "\<forall>s\<in>set (dropWhile ?Q (systems w)). priority sys < priority s"
    by (rule sorted_dropWhile_gt[OF srt])
  ultimately have ex: "\<exists>pre post.
            systems w = pre @ post \<and>
            systems (addSystem sys w) =
              pre @ sys\<lparr>has_world := True, sys_state := sys_init sys (sys_state sys)\<rparr> # post \<and>
            (\<forall>s\<in>set pre. priority s \<le> priority sys) \<and>
            (\<forall>s\<in>set post. priority sys < priority s)"
    by blast
  from World_update_effects[OF reachable_distinct[OF assms], of dt]
  obtain runs where
    "snd (World_update dt w) =
       spec_add_notifications w @ spec_removal_notifications w @ runs"
    "ran_names runs = map sname (filter sys_active (systems w))"
    by blast
  then have run: "ran_names (snd (World_update dt w)) = map sname (filter sys_active (systems w))"
    by (simp add: ran_names_append ran_names_spec_add ran_names_spec_removal)
  from srt ex addSystem_sorted[OF srt] run show ?thesis by blast
qed

theorem systems_priority_order_witness:
  "reachable three_systems \<and>
   map priority (systems three_systems) = [5, 20, 50] \<and>
   map sname (systems (addSystem (test_system ''D'' 20) three_systems))
     = [''B'', ''C'', ''D'', ''A''] \<and>
   sorted (map priority (systems (addSystem (test_system ''D'' 20) three_systems))) \<and>
   ran_names (snd (World_update 1 three_systems)) = [''B'', ''C'', ''A'']"
proof -
  have r: "reachable three_systems"
    unfolding three_systems_def by (intro reachable.intros)
  have e: "systems three_systems =
      [(test_system ''B'' 5)\<lparr>has_world := True\<rparr>, (test_system ''C'' 20)\<lparr>has_world := True\<rparr>,
       (test_system ''A'' 50)\<lparr>has_world := True\<rparr>]"
    by (simp add: three_systems_def addSystem_def new_World_def test_system_def Let_def
      getPriority_def splice_insert_def)
  have f: "map sname (systems (addSystem (test_system ''D'' 20) three_systems))
     = [''B'', ''C'', ''D'', ''A'']"
    by (simp add: e addSystem_def test_system_def Let_def getPriority_def splice_insert_def)
  from systems_priority_order[OF r, of "test_system ''D'' 20" 1] r f show ?thesis
    by (simp add: e test_system_def)
qed

subsection \<open>World: removal requests\<close>

lemma flushRemovals_keys:
  "fst ` set (fst (flushRemovals ls is m)) \<subseteq> fst ` set m"
proof (induction "is" arbitrary: m)
  case Nil
  then show ?case by simp
next
  case (Cons i "is")
  show ?case
  proof (cases "map_of m i")
    case None
    with Cons.IH[of m] show ?thesis by simp
  next
    case (Some e)
    have "fst ` set (AList.delete i m) \<subseteq> fst ` set m"
      by (rule dom_delete_subset)
    with Cons.IH[of "AList.delete i m"] Some show ?thesis
      by (simp add: split_def Let_def)
  qed
qed

lemma flushRemovals_append:
  "flushRemovals ls (xs @ ys) m =
     (fst (flushRemovals ls ys (fst (flushRemovals ls xs m))),
      snd (flushRemovals ls xs m) @ snd (flushRemovals ls ys (fst (flushRemovals ls xs m))))"
  by (induction xs arbitrary: m) (simp_all add: split_def Let_def split: option.splits)

lemma flushRemovals_unknown:
  assumes "i \<notin> fst ` set m"
  shows "flushRemovals ls (set_add i is) m = flushRemovals ls is m"
proof (cases "i \<in> set is")
  case True
  then show ?thesis by (simp add: set_add_def)
next
  case False
  from assms flushRemovals_keys[of ls "is" m]
  have "i \<notin> fst ` set (fst (flushRemovals ls is m))" by blast
  then have "map_of (fst (flushRemovals ls is m)) i = None"
    by (simp add: map_of_eq_None_iff)
  with False show ?thesis
    by (simp add: set_add_def flushRemovals_append)
qed


lemma flushAdditions_keys:
  "fst ` set (fst (flushAdditions ls es m)) = fst ` set m \<union> eid ` set es"
  by (induction es arbitrary: m) (auto simp: split_def Let_def dom_update getId_def)

lemma processAdditions_removeEntity:
  "processAdditions (removeEntity i w) =
     (removeEntity i (fst (processAdditions w)), snd (processAdditions w))"
  by (simp add: processAdditions_def removeEntity_def split_def Let_def)

lemma processAdditions_keys:
  "fst ` set (entities (fst (processAdditions w))) = fst ` set (entities w) \<union> eid ` set (entitiesToAdd w)"
  by (simp add: processAdditions_def split_def Let_def flushAdditions_keys)

lemma processRemovals_unknown:
  assumes "i \<notin> fst ` set (entities w)"
  shows "processRemovals (removeEntity i w) = processRemovals w"
proof (cases "entitiesToRemove w = []")
  case True
  from assms have "map_of (entities w) i = None" by (simp add: map_of_eq_None_iff)
  with True show ?thesis
    by (simp add: processRemovals_def removeEntity_def set_add_def)
next
  case False
  then have "set_add i (entitiesToRemove w) \<noteq> []" by (simp add: set_add_def)
  with False show ?thesis
    by (simp add: processRemovals_def removeEntity_def flushRemovals_unknown[OF assms] Let_def)
qed

lemma World_update_removeEntity_unknown:
  assumes "i \<notin> fst ` set (entities w)" and "i \<notin> eid ` set (entitiesToAdd w)"
  shows "World_update dt (removeEntity i w) = World_update dt w"
proof -
  have "i \<notin> fst ` set (entities (fst (processAdditions w)))"
    using assms by (simp add: processAdditions_keys)
  then show ?thesis
    by (simp add: World_update_unfold processAdditions_removeEntity processRemovals_unknown)
qed





subsection \<open>CollisionSystem: the narrow phase\<close>






text \<open>
  The bounds of a rectangle whose position, offset and dimensions are integers of
  magnitude at most \<open>2\<^sup>5\<^sup>1\<close> are computed without rounding.
\<close>

lemma bounds_computed_exactly_integers:
  assumes "ctype c = RECTANGLE"
    and "tx t = Finite (of_int px)" and "ty t = Finite (of_int py)"
    and "offsetX c = Finite (of_int ox)" and "offsetY c = Finite (of_int oy)"
    and "width c = Finite (of_int w)" and "height c = Finite (of_int h)"
    and "\<bar>px\<bar> \<le> 2 ^ 51" and "\<bar>py\<bar> \<le> 2 ^ 51" and "\<bar>ox\<bar> \<le> 2 ^ 51" and "\<bar>oy\<bar> \<le> 2 ^ 51"
    and "\<bar>w\<bar> \<le> 2 ^ 51" and "\<bar>h\<bar> \<le> 2 ^ 51"
  shows "bounds_computed_exactly c t"
proof -
  have "\<bar>px + ox\<bar> \<le> 2 ^ 53" "\<bar>py + oy\<bar> \<le> 2 ^ 53"
    "\<bar>px + ox + w\<bar> \<le> 2 ^ 53" "\<bar>py + oy + h\<bar> \<le> 2 ^ 53"
    using assms(8-13) by simp_all
  then have r: "round64 (of_int px + of_int ox) = Finite (of_int px + of_int ox)"
    "round64 (of_int py + of_int oy) = Finite (of_int py + of_int oy)"
    "round64 (of_int px + of_int ox + of_int w) = Finite (of_int px + of_int ox + of_int w)"
    "round64 (of_int py + of_int oy + of_int h) = Finite (of_int py + of_int oy + of_int h)"
    by (simp_all only: round64_sum2 round64_sum3)
  show ?thesis
    using assms(1-7)
    by (simp add: bounds_computed_exactly_def exactly_def Let_def getBounds_def exact_bounds_def r)
qed

lemma strictly_overlap_common_point:
  assumes "lo1 < hi1" and "lo2 < hi2"
  shows "strictly_overlap lo1 hi1 lo2 hi2 \<longleftrightarrow> (\<exists>p. lo1 < p \<and> p < hi1 \<and> lo2 < p \<and> p < hi2)"
proof
  assume "strictly_overlap lo1 hi1 lo2 hi2"
  then have "max lo1 lo2 < min hi1 hi2" using assms by (simp add: strictly_overlap_def)
  then obtain p where "max lo1 lo2 < p" "p < min hi1 hi2" using dense by blast
  then show "\<exists>p. lo1 < p \<and> p < hi1 \<and> lo2 < p \<and> p < hi2" by auto
next
  assume "\<exists>p. lo1 < p \<and> p < hi1 \<and> lo2 < p \<and> p < hi2"
  then show "strictly_overlap lo1 hi1 lo2 hi2" by (auto simp: strictly_overlap_def)
qed

lemma clamp_nearest:
  assumes "lo \<le> hi"
  shows "lo \<le> clamp lo hi v \<and> clamp lo hi v \<le> hi \<and>
         (\<forall>q. lo \<le> q \<and> q \<le> hi \<longrightarrow> \<bar>clamp lo hi v - v\<bar> \<le> \<bar>q - v\<bar>)"
  using assms by (auto simp: clamp_def max_def min_def)

lemma listener_calls_single:
  "collisionListeners cs = [l] \<Longrightarrow> listener_calls cs evs = map (Pair l) evs"
  by (induction evs) (simp_all add: listener_calls_def dispatchCollisionEvent_def)




subsection \<open>CollisionSystem: the detection loop\<close>

lemma checkCollision_no_error:
  "colliderOf h a \<noteq> None \<Longrightarrow> colliderOf h b \<noteq> None \<Longrightarrow> \<exists>v. checkCollision h a b = Inr v"
  by (auto simp: colliderOf_def checkCollision_def split: option.splits Option.bind_splits)

lemma bruteForce_inner_keys:
  assumes "colliderOf h a \<noteq> None" and "\<forall>b\<in>set bs. colliderOf h b \<noteq> None"
  shows "\<exists>res. bruteForce_inner h a bs cur = Inr res \<and>
           fst ` set res = fst ` set cur \<union>
             set (map (getCollisionPairId a) (filter (pair_collides h a) bs)) \<and>
           (distinct (map fst cur) \<longrightarrow> distinct (map fst res))"
  using assms
proof (induction bs arbitrary: cur)
  case Nil
  then show ?case by simp
next
  case (Cons b bs)
  from Cons.prems obtain ca cb where ca: "colliderOf h a = Some ca" and cb: "colliderOf h b = Some cb"
    by auto
  from Cons.prems have rest: "\<forall>b\<in>set bs. colliderOf h b \<noteq> None" by simp
  obtain v where v: "checkCollision h a b = Inr v"
    using checkCollision_no_error[of h a b] ca cb by auto
  show ?case
  proof (cases "layers_match ca cb \<and> v")
    case True
    then have pc: "pair_collides h a b" using ca cb v by (simp add: pair_collides_def)
    from Cons.IH[OF Cons.prems(1) rest, of "AList.update (getCollisionPairId a b) True cur"]
    obtain res where res: "bruteForce_inner h a bs (AList.update (getCollisionPairId a b) True cur) = Inr res"
      "fst ` set res = fst ` set (AList.update (getCollisionPairId a b) True cur) \<union>
             set (map (getCollisionPairId a) (filter (pair_collides h a) bs))"
      "distinct (map fst (AList.update (getCollisionPairId a b) True cur)) \<longrightarrow> distinct (map fst res)"
      by blast
    have step: "bruteForce_inner h a (b # bs) cur = Inr res"
      using True ca cb v res(1)
      by (simp add: colliderOf_def[symmetric] layers_match_def getCollisionLayer_def)
    from res(2) pc have "fst ` set res = fst ` set cur \<union>
             set (map (getCollisionPairId a) (filter (pair_collides h a) (b # bs)))"
      by (simp add: dom_update)
    moreover from res(3) have "distinct (map fst cur) \<longrightarrow> distinct (map fst res)"
      by (simp add: distinct_update)
    ultimately show ?thesis using step by blast
  next
    case False
    then have pc: "\<not> pair_collides h a b" using ca cb v by (auto simp add: pair_collides_def)
    from Cons.IH[OF Cons.prems(1) rest, of cur]
    obtain res where res: "bruteForce_inner h a bs cur = Inr res"
      "fst ` set res = fst ` set cur \<union>
             set (map (getCollisionPairId a) (filter (pair_collides h a) bs))"
      "distinct (map fst cur) \<longrightarrow> distinct (map fst res)"
      by blast
    have step: "bruteForce_inner h a (b # bs) cur = Inr res"
      using False ca cb v res(1)
      by (auto simp add: colliderOf_def[symmetric] layers_match_def getCollisionLayer_def)
    with res pc show ?thesis by simp
  qed
qed

lemma bruteForce_keys:
  assumes "\<forall>e\<in>set es. colliderOf h e \<noteq> None"
  shows "\<exists>res. bruteForceCollisionDetection h es cur = Inr res \<and>
           fst ` set res = fst ` set cur \<union> set (spec_colliding_ids h es) \<and>
           (distinct (map fst cur) \<longrightarrow> distinct (map fst res))"
  using assms
proof (induction es arbitrary: cur)
  case Nil
  then show ?case by (simp add: spec_colliding_ids_def)
next
  case (Cons a es)
  from Cons.prems have a: "colliderOf h a \<noteq> None" and rest: "\<forall>b\<in>set es. colliderOf h b \<noteq> None"
    by simp_all
  from bruteForce_inner_keys[OF a rest, of cur]
  obtain mid where mid: "bruteForce_inner h a es cur = Inr mid"
    "fst ` set mid = fst ` set cur \<union> set (map (getCollisionPairId a) (filter (pair_collides h a) es))"
    "distinct (map fst cur) \<longrightarrow> distinct (map fst mid)"
    by blast
  from Cons.IH[OF rest, of mid]
  obtain res where res: "bruteForceCollisionDetection h es mid = Inr res"
    "fst ` set res = fst ` set mid \<union> set (spec_colliding_ids h es)"
    "distinct (map fst mid) \<longrightarrow> distinct (map fst res)"
    by blast
  have "spec_colliding_ids h (a # es) =
      map (getCollisionPairId a) (filter (pair_collides h a) es) @ spec_colliding_ids h es"
    by (simp add: spec_colliding_ids_def filter_map comp_def)
  with mid res show ?case by (simp add: Un_assoc)
qed

lemma pair_collides_iff:
  "pair_collides h a b \<longleftrightarrow>
     (\<exists>ca cb. colliderOf h a = Some ca \<and> colliderOf h b = Some cb \<and> layers_match ca cb \<and>
        checkCollision h a b = Inr True)"
  by (cases "colliderOf h a"; cases "colliderOf h b") (simp_all add: pair_collides_def)

lemma spec_colliding_ids_iff:
  "p \<in> set (spec_colliding_ids h es) \<longleftrightarrow>
     (\<exists>a b ca cb. (a, b) \<in> set (unordered_pairs es) \<and> p = getCollisionPairId a b \<and>
        colliderOf h a = Some ca \<and> colliderOf h b = Some cb \<and> layers_match ca cb \<and>
        checkCollision h a b = Inr True)"
proof -
  have "p \<in> set (spec_colliding_ids h es) \<longleftrightarrow>
          (\<exists>a b. (a, b) \<in> set (unordered_pairs es) \<and> pair_collides h a b \<and>
             p = getCollisionPairId a b)"
    by (auto simp: spec_colliding_ids_def)
  then show ?thesis unfolding pair_collides_iff by blast
qed

lemma no_match_no_ids:
  assumes "\<forall>(a, b)\<in>set (unordered_pairs es). \<forall>ca cb.
             colliderOf h a = Some ca \<and> colliderOf h b = Some cb \<longrightarrow> \<not> layers_match ca cb"
  shows "spec_colliding_ids h es = []"
proof -
  have "p \<notin> set (spec_colliding_ids h es)" for p
    unfolding spec_colliding_ids_iff using assms by blast
  then show ?thesis by (cases "spec_colliding_ids h es") auto
qed

lemma update_no_pairs:
  assumes "\<forall>e\<in>set (collidable w). colliderOf h e \<noteq> None"
    and "collisionPairs cs = []" and "spec_colliding_ids h (collidable w) = []"
  shows "CollisionSystem_update cs (Some w) h dt = Inr (cs, [])"
proof -
  from bruteForce_keys[OF assms(1), of "[]"] assms(3)
  have det: "bruteForceCollisionDetection h (collidable w) [] = Inr []" by auto
  have "cs\<lparr>collisionPairs := []\<rparr> = cs" using assms(2) by simp
  with det assms(2) show ?thesis
    by (simp add: CollisionSystem_update_def collidable_def[symmetric] processCollisionEvents_def)
qed

text \<open>Facts about the test scene.\<close>

lemmas scene_defs =
  scene_world_def entity_a_def entity_b_def scene_heap_def rect50_def rect_scene_def
  new_TransformComponent_def new_ColliderComponent_def new_CollisionSystem_def
  round64_numeral round64_0 round64_1

lemmas collision_defs =
  CollisionSystem_update_def CollisionSystem_filter_def hasComponent_def map_has_def isActive_def
  getEntities_def map_values_def getComponent_def asCollider_def asTransform_def
  canCollideWith_def getCollisionLayer_def checkCollision_def checkShapes_def
  checkRectRectCollision_def checkCircleCircleCollision_def checkCircleRectCollision_def
  getBounds_def getColliderType_def getCollisionPairId_def getId_def
  processCollisionEvents_def pairEvent_def getEntitiesFromPairId_def getEntity_def
  getRadius_def getOffsetX_def getOffsetY_def

lemma scene_collidable: "collidable scene_world = [entity_a, entity_b]"
  by (simp add: collidable_def scene_defs CollisionSystem_filter_def hasComponent_def map_has_def
      isActive_def getEntities_def map_values_def)

lemma scene_wf_registry: "wf_registry scene_world"
  by (simp add: wf_registry_def scene_defs)

lemma scene_colliderOf:
  "colliderOf (scene_heap ta ca tb cb) entity_a = Some ca"
  "colliderOf (scene_heap ta ca tb cb) entity_b = Some cb"
  by (simp_all add: colliderOf_def getComponent_def asCollider_def scene_defs)

lemma scene_wf_colliders: "wf_colliders (scene_heap ta ca tb cb) scene_world"
  by (simp add: wf_colliders_def scene_collidable scene_colliderOf)

lemma scene_checkCollision:
  "checkCollision (scene_heap ta ca tb cb) entity_a entity_b = Inr (checkShapes ta ca tb cb)"
  by (simp add: checkCollision_def getComponent_def asCollider_def asTransform_def scene_defs)

lemma scene_ids:
  "spec_colliding_ids (scene_heap ta ca tb cb) (collidable scene_world) =
     (if layers_match ca cb \<and> checkShapes ta ca tb cb then [''a:b''] else [])"
  by (simp add: spec_colliding_ids_def scene_collidable pair_collides_def scene_colliderOf
      scene_checkCollision)
     (simp add: getCollisionPairId_def getId_def entity_a_def entity_b_def)

lemma rect_scene_ids:
  "spec_colliding_ids (rect_scene 200 200) (collidable scene_world) = []"
  "spec_colliding_ids (rect_scene 120 120) (collidable scene_world) = [''a:b'']"
  by (simp_all add: rect_scene_def scene_ids layers_match_def canCollideWith_def checkShapes_def
      checkRectRectCollision_def getBounds_def getColliderType_def rect50_def
      new_ColliderComponent_def new_TransformComponent_def round64_numeral round64_0)

lemma tick_enter:
  "CollisionSystem_update (new_CollisionSystem True 10 5) (Some scene_world) (rect_scene 120 120) dt
     = Inr ((new_CollisionSystem True 10 5)\<lparr>collisionPairs := [(''a:b'', True)]\<rparr>,
            [\<lparr>etype = ENTER, entityA = entity_a, entityB = entity_b\<rparr>])"
  by (simp add: scene_defs collision_defs Let_def)

lemma tick_layers:
  "CollisionSystem_update (new_CollisionSystem True 10 5) (Some scene_world) layer_scene dt
     = Inr (new_CollisionSystem True 10 5, [])"
  by (simp add: layer_scene_def scene_defs collision_defs Let_def)

text \<open>
  C5. The layer/mask test is the conjunction of the two bitwise tests. For entities that
  all carry a collider, the detection returns without error, and a pair id is in the
  detected set iff it is the id of an unordered pair whose colliders pass the layer/mask
  test in both directions and whose shape test succeeds: no pair that fails the
  layer/mask test is reported, whatever its shapes. If no pair passes the layer/mask
  test, a system without kept pairs dispatches no event and keeps no pair.
\<close>

theorem layer_mask_gate:
  assumes "\<forall>e\<in>set es. colliderOf h e \<noteq> None"
  shows "(\<forall>ca cb. layers_match ca cb \<longleftrightarrow>
            (word_of_int (collisionMask ca) :: 32 word) AND word_of_int (collisionLayer cb) \<noteq> 0 \<and>
            (word_of_int (collisionMask cb) :: 32 word) AND word_of_int (collisionLayer ca) \<noteq> 0) \<and>
         (\<exists>res. bruteForceCollisionDetection h es [] = Inr res \<and>
            (\<forall>pairId. map_has res pairId \<longleftrightarrow>
               (\<exists>a b ca cb. (a, b) \<in> set (unordered_pairs es) \<and>
                  pairId = getCollisionPairId a b \<and>
                  colliderOf h a = Some ca \<and> colliderOf h b = Some cb \<and>
                  layers_match ca cb \<and> checkCollision h a b = Inr True))) \<and>
         (\<forall>w cs dt.
            collidable (w :: 's world) = es \<and> collisionPairs (cs :: CollisionSystem) = [] \<and>
            (\<forall>(a, b)\<in>set (unordered_pairs es). \<forall>ca cb.
               colliderOf h a = Some ca \<and> colliderOf h b = Some cb \<longrightarrow> \<not> layers_match ca cb) \<longrightarrow>
            CollisionSystem_update cs (Some w) h dt = Inr (cs, []))"
proof (intro conjI allI impI)
  fix ca cb
  show "layers_match ca cb \<longleftrightarrow>
            (word_of_int (collisionMask ca) :: 32 word) AND word_of_int (collisionLayer cb) \<noteq> 0 \<and>
            (word_of_int (collisionMask cb) :: 32 word) AND word_of_int (collisionLayer ca) \<noteq> 0"
    by (simp add: layers_match_def canCollideWith_def)
next
  from bruteForce_keys[OF assms, of "[]"]
  obtain res where r: "bruteForceCollisionDetection h es [] = Inr res"
    and k: "fst ` set res = set (spec_colliding_ids h es)" by auto
  have "map_has res p \<longleftrightarrow>
               (\<exists>a b ca cb. (a, b) \<in> set (unordered_pairs es) \<and>
                  p = getCollisionPairId a b \<and>
                  colliderOf h a = Some ca \<and> colliderOf h b = Some cb \<and>
                  layers_match ca cb \<and> checkCollision h a b = Inr True)" for p
    unfolding map_has_def k by (rule spec_colliding_ids_iff)
  with r show "\<exists>res. bruteForceCollisionDetection h es [] = Inr res \<and>
            (\<forall>pairId. map_has res pairId \<longleftrightarrow>
               (\<exists>a b ca cb. (a, b) \<in> set (unordered_pairs es) \<and>
                  pairId = getCollisionPairId a b \<and>
                  colliderOf h a = Some ca \<and> colliderOf h b = Some cb \<and>
                  layers_match ca cb \<and> checkCollision h a b = Inr True))"
    by blast
next
  fix w :: "'s world" and cs :: CollisionSystem and dt
  assume a: "collidable w = es \<and> collisionPairs cs = [] \<and>
            (\<forall>(a, b)\<in>set (unordered_pairs es). \<forall>ca cb.
               colliderOf h a = Some ca \<and> colliderOf h b = Some cb \<longrightarrow> \<not> layers_match ca cb)"
  then have "spec_colliding_ids h (collidable w) = []"
    using no_match_no_ids[of es h] by simp
  with a assms show "CollisionSystem_update cs (Some w) h dt = Inr (cs, [])"
    by (intro update_no_pairs) simp_all
qed

theorem layer_mask_gate_witness:
  "colliderOf layer_scene entity_a = Some (rect50 1 2) \<and>
   colliderOf layer_scene entity_b = Some (rect50 4 8) \<and>
   checkCollision layer_scene entity_a entity_b = Inr True \<and>
   \<not> layers_match (rect50 1 2) (rect50 4 8) \<and>
   CollisionSystem_update (new_CollisionSystem True 10 5) (Some scene_world) layer_scene (16 / 1000)
     = Inr (new_CollisionSystem True 10 5, [])"
proof -
  have c: "\<forall>e\<in>set [entity_a, entity_b]. colliderOf layer_scene e \<noteq> None"
    by (simp add: layer_scene_def scene_colliderOf)
  have n: "\<not> layers_match (rect50 1 2) (rect50 4 8)"
    by (simp add: layers_match_def canCollideWith_def rect50_def new_ColliderComponent_def)
  have hit: "checkCollision layer_scene entity_a entity_b = Inr True"
    by (simp add: layer_scene_def scene_checkCollision checkShapes_def checkRectRectCollision_def
        getBounds_def getColliderType_def rect50_def new_ColliderComponent_def
        new_TransformComponent_def round64_numeral round64_0)
  have pre: "collidable scene_world = [entity_a, entity_b] \<and>
        collisionPairs (new_CollisionSystem True 10 5) = [] \<and>
        (\<forall>(a, b)\<in>set (unordered_pairs [entity_a, entity_b]). \<forall>ca cb.
           colliderOf layer_scene a = Some ca \<and> colliderOf layer_scene b = Some cb \<longrightarrow>
           \<not> layers_match ca cb)"
    using n by (simp add: scene_collidable new_CollisionSystem_def layer_scene_def scene_colliderOf)
  from layer_mask_gate[OF c] pre
  have "CollisionSystem_update (new_CollisionSystem True 10 5) (Some scene_world) layer_scene (16 / 1000)
     = Inr (new_CollisionSystem True 10 5, [])"
    by blast
  with n hit show ?thesis by (simp add: layer_scene_def scene_colliderOf)
qed

subsection \<open>CollisionSystem: rotation, scale and the constructor parameters\<close>

lemma same_placement_forget:
  "same_placement c c' \<Longrightarrow> forget_rotation_scale c = forget_rotation_scale c'"
  by (cases c; cases c')
     (auto simp: same_placement_def forget_rotation_scale_def split: component_data.splits)

lemma differ_forget:
  "differ_only_in_rotation_scale h h' \<Longrightarrow> forget_rotation_scale \<circ> h = forget_rotation_scale \<circ> h'"
  by (auto simp: differ_only_in_rotation_scale_def same_placement_forget)

lemma getBounds_forget [simp]:
  "getBounds c (t\<lparr>rotation := r, scaleX := sx, scaleY := sy\<rparr>) = getBounds c t"
  by (simp add: getBounds_def)

lemma checkShapes_forget [simp]:
  "checkShapes (ta\<lparr>rotation := r, scaleX := sx, scaleY := sy\<rparr>) ca
               (tb\<lparr>rotation := r', scaleX := sx', scaleY := sy'\<rparr>) cb = checkShapes ta ca tb cb"
  by (simp add: checkShapes_def checkCircleCircleCollision_def checkRectRectCollision_def
      checkCircleRectCollision_def Let_def)

lemma asCollider_forget [simp]: "asCollider (forget_rotation_scale c) = asCollider c"
  by (simp add: asCollider_def forget_rotation_scale_def split: component_data.splits)

lemma asTransform_forget [simp]:
  "asTransform (forget_rotation_scale c) =
     map_option (\<lambda>t. t\<lparr>rotation := Finite 0, scaleX := Finite 0, scaleY := Finite 0\<rparr>)
       (asTransform c)"
  by (simp add: asTransform_def forget_rotation_scale_def split: component_data.splits)

lemma getComponent_forget [simp]:
  "getComponent (forget_rotation_scale \<circ> h) e t = map_option forget_rotation_scale (getComponent h e t)"
  by (simp add: getComponent_def option.map_comp comp_def)

lemma checkCollision_forget:
  "checkCollision (forget_rotation_scale \<circ> h) a b = checkCollision h a b"
  by (simp add: checkCollision_def split: option.splits)

lemma bruteForce_inner_forget:
  "bruteForce_inner (forget_rotation_scale \<circ> h) a bs cur = bruteForce_inner h a bs cur"
proof (induction bs arbitrary: cur)
  case Nil
  then show ?case by simp
next
  case (Cons b bs)
  have c: "Option.bind (getComponent (forget_rotation_scale \<circ> h) e ''Collider'') asCollider =
           Option.bind (getComponent h e ''Collider'') asCollider" for e
    by (cases "getComponent h e ''Collider''") simp_all
  show ?case
    by (simp only: bruteForce_inner.simps c checkCollision_forget Cons.IH)
qed

lemma bruteForce_forget:
  "bruteForceCollisionDetection (forget_rotation_scale \<circ> h) es cur =
     bruteForceCollisionDetection h es cur"
  by (induction es arbitrary: cur)
     (simp_all add: bruteForce_inner_forget cong: sum.case_cong)

lemma CollisionSystem_update_forget:
  "CollisionSystem_update cs wo (forget_rotation_scale \<circ> h) dt = CollisionSystem_update cs wo h dt"
  by (simp add: CollisionSystem_update_def bruteForce_forget cong: option.case_cong)

text \<open>
  C9. If two heaps differ at most in the rotation and the scale of transform components,
  the collision check of every pair of entities gives the same verdict on both, and a
  tick of the collision system gives the same result on both: the same kept pairs and
  the same dispatched events.
\<close>

theorem collision_ignores_rotation_scale:
  assumes "differ_only_in_rotation_scale h h'"
  shows "checkCollision h a b = checkCollision h' a b \<and>
         CollisionSystem_update cs wo h dt = CollisionSystem_update cs wo h' dt"
proof -
  from assms have e: "forget_rotation_scale \<circ> h = forget_rotation_scale \<circ> h'"
    by (rule differ_forget)
  have "checkCollision h a b = checkCollision (forget_rotation_scale \<circ> h) a b"
    by (simp only: checkCollision_forget)
  also have "\<dots> = checkCollision h' a b"
    by (simp only: e checkCollision_forget)
  finally have 1: "checkCollision h a b = checkCollision h' a b" .
  have "CollisionSystem_update cs wo h dt = CollisionSystem_update cs wo (forget_rotation_scale \<circ> h) dt"
    by (simp only: CollisionSystem_update_forget)
  also have "\<dots> = CollisionSystem_update cs wo h' dt"
    by (simp only: e CollisionSystem_update_forget)
  finally show ?thesis using 1 by simp
qed

theorem collision_ignores_rotation_scale_witness:
  "differ_only_in_rotation_scale (rect_scene 120 120) (turned_scene 120 120) \<and>
   rect_scene 120 120 \<noteq> turned_scene 120 120 \<and>
   checkCollision (turned_scene 120 120) entity_a entity_b = Inr True \<and>
   CollisionSystem_update (new_CollisionSystem True 10 5) (Some scene_world) (turned_scene 120 120) (16 / 1000)
     = Inr ((new_CollisionSystem True 10 5)\<lparr>collisionPairs := [(''a:b'', True)]\<rparr>,
            [\<lparr>etype = ENTER, entityA = entity_a, entityB = entity_b\<rparr>])"
proof -
  have d: "differ_only_in_rotation_scale (rect_scene 120 120) (turned_scene 120 120)"
    by (simp add: differ_only_in_rotation_scale_def same_placement_def rect_scene_def
        turned_scene_def scene_heap_def new_TransformComponent_def)
  have n: "rect_scene 120 120 \<noteq> turned_scene 120 120"
  proof
    assume "rect_scene 120 120 = turned_scene 120 120"
    then have "rect_scene 120 120 0 = turned_scene 120 120 0" by simp
    then show False
      by (simp add: rect_scene_def turned_scene_def scene_heap_def new_TransformComponent_def)
  qed
  have c: "checkCollision (rect_scene 120 120) entity_a entity_b = Inr True"
    by (simp add: rect_scene_def scene_checkCollision checkShapes_def checkRectRectCollision_def
        getBounds_def getColliderType_def rect50_def new_ColliderComponent_def
        new_TransformComponent_def round64_numeral round64_0)
  have u: "CollisionSystem_update (new_CollisionSystem True 10 5) (Some scene_world) (rect_scene 120 120) (16 / 1000)
     = Inr ((new_CollisionSystem True 10 5)\<lparr>collisionPairs := [(''a:b'', True)]\<rparr>,
            [\<lparr>etype = ENTER, entityA = entity_a, entityB = entity_b\<rparr>])"
    by (simp add: scene_defs collision_defs Let_def)
  from collision_ignores_rotation_scale[OF d, of entity_a entity_b "new_CollisionSystem True 10 5"
      "Some scene_world" "16 / 1000"] d n c u
  show ?thesis by simp
qed

lemma CollisionSystem_update_parameters:
  "CollisionSystem_update (cs\<lparr>useQuadTree := q, maxObjectsPerNode := n, maxLevels := l\<rparr>) wo h dt =
     map_sum id (\<lambda>(cs', evs). (cs'\<lparr>useQuadTree := q, maxObjectsPerNode := n, maxLevels := l\<rparr>, evs))
       (CollisionSystem_update cs wo h dt)"
  by (simp add: CollisionSystem_update_def processCollisionEvents_def Let_def
      split: option.splits sum.splits)

text \<open>
  C10. Changing \<^verbatim>\<open>useQuadTree\<close>, \<^verbatim>\<open>maxObjectsPerNode\<close> and \<^verbatim>\<open>maxLevels\<close> of a collision
  system changes nothing about a tick but these three fields of the resulting system:
  error or not, kept pairs and dispatched events are the same. In particular two freshly
  constructed systems keep the same pairs and dispatch the same events whatever their
  constructor arguments.
\<close>

theorem quadtree_parameters_irrelevant:
  "CollisionSystem_update ((cs :: CollisionSystem)\<lparr>useQuadTree := q, maxObjectsPerNode := n, maxLevels := l\<rparr>) wo h dt =
     map_sum id (\<lambda>(cs', evs). (cs'\<lparr>useQuadTree := q, maxObjectsPerNode := n, maxLevels := l\<rparr>, evs))
       (CollisionSystem_update cs wo h dt) \<and>
   map_sum id (\<lambda>(cs', evs). (collisionPairs cs', evs))
       (CollisionSystem_update (new_CollisionSystem q n l) wo h dt) =
   map_sum id (\<lambda>(cs', evs). (collisionPairs cs', evs))
       (CollisionSystem_update (new_CollisionSystem q' n' l') wo h dt)"
proof -
  have "new_CollisionSystem q n l =
          (new_CollisionSystem q' n' l')\<lparr>useQuadTree := q, maxObjectsPerNode := n, maxLevels := l\<rparr>"
    by (simp add: new_CollisionSystem_def)
  then have "map_sum id (\<lambda>(cs', evs). (collisionPairs cs', evs))
       (CollisionSystem_update (new_CollisionSystem q n l) wo h dt) =
   map_sum id (\<lambda>(cs', evs). (collisionPairs cs', evs))
       (CollisionSystem_update (new_CollisionSystem q' n' l') wo h dt)"
    by (simp only: CollisionSystem_update_parameters)
       (cases "CollisionSystem_update (new_CollisionSystem q' n' l') wo h dt", auto)
  then show ?thesis using CollisionSystem_update_parameters by blast
qed

theorem quadtree_parameters_irrelevant_witness:
  "useQuadTree (new_CollisionSystem True 1 5) \<and>
   real (length (collidable scene_world)) > maxObjectsPerNode (new_CollisionSystem True 1 5) \<and>
   \<not> useQuadTree (new_CollisionSystem False 10 7) \<and>
   CollisionSystem_update (new_CollisionSystem True 1 5) (Some scene_world) (rect_scene 120 120) (16 / 1000)
     = Inr ((new_CollisionSystem True 1 5)\<lparr>collisionPairs := [(''a:b'', True)]\<rparr>,
            [\<lparr>etype = ENTER, entityA = entity_a, entityB = entity_b\<rparr>]) \<and>
   CollisionSystem_update (new_CollisionSystem False 10 7) (Some scene_world) (rect_scene 120 120) (16 / 1000)
     = Inr ((new_CollisionSystem False 10 7)\<lparr>collisionPairs := [(''a:b'', True)]\<rparr>,
            [\<lparr>etype = ENTER, entityA = entity_a, entityB = entity_b\<rparr>])"
proof -
  have a: "CollisionSystem_update (new_CollisionSystem False 10 7) (Some scene_world) (rect_scene 120 120) (16 / 1000)
     = Inr ((new_CollisionSystem False 10 7)\<lparr>collisionPairs := [(''a:b'', True)]\<rparr>,
            [\<lparr>etype = ENTER, entityA = entity_a, entityB = entity_b\<rparr>])"
    by (simp add: scene_defs collision_defs Let_def)
  have e: "(new_CollisionSystem False 10 7)\<lparr>useQuadTree := True, maxObjectsPerNode := 1, maxLevels := 5\<rparr>
      = new_CollisionSystem True 1 5"
    by (simp add: new_CollisionSystem_def)
  from quadtree_parameters_irrelevant[where cs = "new_CollisionSystem False 10 7" and q = True
      and n = 1 and l = 5 and wo = "Some scene_world" and h = "rect_scene 120 120"
      and dt = "16 / 1000"]
  have "CollisionSystem_update (new_CollisionSystem True 1 5) (Some scene_world) (rect_scene 120 120) (16 / 1000)
     = Inr ((new_CollisionSystem True 1 5)\<lparr>collisionPairs := [(''a:b'', True)]\<rparr>,
            [\<lparr>etype = ENTER, entityA = entity_a, entityB = entity_b\<rparr>])"
    unfolding e a by (simp add: new_CollisionSystem_def)
  with a show ?thesis by (simp add: scene_collidable new_CollisionSystem_def)
qed

subsection \<open>CollisionSystem: enter, stay and exit\<close>

lemma split_nonempty: "split c s \<noteq> []"
  by (induction s) (auto split: list.splits)

lemma split_no_sep: "c \<notin> set s \<Longrightarrow> split c s = [s]"
  by (induction s) auto

lemma split_append_sep: "c \<notin> set a \<Longrightarrow> split c (a @ c # rest) = a # split c rest"
  by (induction a) auto

lemma split_two: "c \<notin> set a \<Longrightarrow> c \<notin> set b \<Longrightarrow> split c (a @ c # b) = [a, b]"
  by (simp add: split_append_sep split_no_sep)

lemma split_single_inv: "split c s = [b] \<Longrightarrow> s = b"
proof (induction s arbitrary: b)
  case Nil
  then show ?case by simp
next
  case (Cons x xs)
  show ?case
  proof (cases "x = c")
    case True
    with Cons.prems split_nonempty[of c xs] show ?thesis by simp
  next
    case False
    with Cons.prems split_nonempty[of c xs] obtain p where "split c xs = [p]" "b = x # p"
      by (auto split: list.splits)
    with Cons.IH[of p] show ?thesis by simp
  qed
qed

lemma split_two_inv: "split c s = [a, b] \<Longrightarrow> s = a @ c # b"
proof (induction s arbitrary: a)
  case Nil
  then show ?case by simp
next
  case (Cons x xs)
  show ?case
  proof (cases "x = c")
    case True
    with Cons.prems have "a = []" "split c xs = [b]" by simp_all
    with split_single_inv[of c xs b] True show ?thesis by simp
  next
    case False
    with Cons.prems split_nonempty[of c xs] obtain p where "split c xs = [p, b]" "a = x # p"
      by (auto split: list.splits)
    with Cons.IH[of p] show ?thesis by simp
  qed
qed

lemma getCollisionPairId_canonical:
  assumes "eid a \<noteq> eid b" "CHR '':'' \<notin> set (eid a)" "CHR '':'' \<notin> set (eid b)"
  shows "canonical_key (getCollisionPairId a b)"
proof (cases "eid a < eid b")
  case True
  with assms show ?thesis
    by (simp add: canonical_key_def getCollisionPairId_def getId_def split_two)
next
  case False
  with assms(1) have "eid b < eid a" by auto
  with False assms show ?thesis
    by (simp add: canonical_key_def getCollisionPairId_def getId_def split_two)
qed

lemma wf_registry_lookup:
  assumes "wf_registry w" "e \<in> set (getEntities w)"
  shows "getEntity w (eid e) = Some e"
proof -
  from assms(2) obtain k where k: "(k, e) \<in> set (entities w)"
    by (auto simp: getEntities_def map_values_def)
  with assms(1) have "eid e = k" by (auto simp: wf_registry_def)
  with k assms(1) show ?thesis by (simp add: getEntity_def wf_registry_def)
qed

lemma wf_registry_found:
  assumes "wf_registry w" "getEntity w k = Some e"
  shows "eid e = k \<and> CHR '':'' \<notin> set k \<and> e \<in> set (getEntities w)"
proof -
  from assms(2) have "(k, e) \<in> set (entities w)"
    by (simp add: getEntity_def map_of_SomeD)
  with assms(1) show ?thesis
    by (force simp: wf_registry_def getEntities_def map_values_def)
qed

lemma pairEvent_cases:
  assumes "wf_registry w" "canonical_key k"
  shows "(both_present w k \<and> (\<exists>e. pairEvent t (Some w) k = [e] \<and> etype e = t \<and> ev_pair_id e = k)) \<or>
         (\<not> both_present w k \<and> pairEvent t (Some w) k = [])"
proof -
  from assms(2) obtain a b where sp: "split CHR '':'' k = [a, b]" and lt: "a < b"
    by (auto simp: canonical_key_def split: list.splits)
  from split_two_inv[OF sp] have k: "k = a @ CHR '':'' # b" .
  have g: "getEntitiesFromPairId (Some w) k = (getEntity w a, getEntity w b)"
    by (simp add: getEntitiesFromPairId_def sp)
  show ?thesis
  proof (cases "getEntity w a")
    case None
    then show ?thesis by (simp add: both_present_def pairEvent_def g)
  next
    case (Some ea)
    note ea = this
    show ?thesis
    proof (cases "getEntity w b")
      case None
      with ea show ?thesis by (simp add: both_present_def pairEvent_def g)
    next
      case (Some eb)
      from wf_registry_found[OF assms(1) ea] wf_registry_found[OF assms(1) Some]
      have "eid ea = a" "eid eb = b" by simp_all
      with lt k have "getCollisionPairId ea eb = k"
        by (simp add: getCollisionPairId_def getId_def)
      with ea Some show ?thesis
        by (simp add: both_present_def pairEvent_def g ev_pair_id_def)
    qed
  qed
qed

lemma pairEvent_key:
  assumes "wf_registry w" "canonical_key k" "e \<in> set (pairEvent t (Some w) k)"
  shows "ev_pair_id e = k"
  using pairEvent_cases[OF assms(1,2), of t] assms(3) by auto

lemma pairEvent_types:
  assumes "wf_registry w" "canonical_key k"
  shows "map etype (pairEvent t (Some w) k) = (if both_present w k then [t] else [])"
  using pairEvent_cases[OF assms(1,2), of t] by auto

lemma pair_id_present:
  assumes "wf_registry w" "a \<in> set (getEntities w)" "b \<in> set (getEntities w)" "eid a \<noteq> eid b"
  shows "canonical_key (getCollisionPairId a b) \<and> both_present w (getCollisionPairId a b)"
proof -
  from wf_registry_lookup[OF assms(1,2)] wf_registry_lookup[OF assms(1,3)]
  have la: "getEntity w (eid a) = Some a" and lb: "getEntity w (eid b) = Some b" .
  from wf_registry_found[OF assms(1) la] wf_registry_found[OF assms(1) lb]
  have ca: "CHR '':'' \<notin> set (eid a)" and cb: "CHR '':'' \<notin> set (eid b)" by simp_all
  have can: "canonical_key (getCollisionPairId a b)"
    using assms(4) ca cb by (rule getCollisionPairId_canonical)
  have "both_present w (getCollisionPairId a b)"
    using la lb ca cb
    by (simp add: both_present_def getEntitiesFromPairId_def getCollisionPairId_def getId_def
        split_two Let_def)
  with can show ?thesis by simp
qed

lemma filter_concat_keyed:
  assumes "distinct (map fst m)" and "\<forall>(k, v)\<in>set m. \<forall>e\<in>set (g k). key e = k"
  shows "filter (\<lambda>e. key e = p) (concat (map (\<lambda>(k, v). g k) m)) =
           (if p \<in> fst ` set m then g p else [])"
  using assms
proof (induction m)
  case Nil
  then show ?case by simp
next
  case (Cons kv m)
  obtain k v where kv: "kv = (k, v)" by (cases kv)
  from Cons.prems kv have d: "distinct (map fst m)" and nk: "k \<notin> fst ` set m"
    and gk: "\<forall>e\<in>set (g k). key e = k"
    and rest: "\<forall>(k, v)\<in>set m. \<forall>e\<in>set (g k). key e = k"
    by auto
  have here: "filter (\<lambda>e. key e = p) (g k) = (if p = k then g k else [])"
    using gk by (auto simp: filter_empty_conv intro: filter_True)
  from Cons.IH[OF d rest] here nk kv show ?case by auto
qed

lemma enterStayLoop_concat:
  "enterStayLoop previous wo cur =
     concat (map (\<lambda>(k, v). if \<not> map_has previous k then pairEvent ENTER wo k
                            else pairEvent STAY wo k) cur)"
  by (induction cur) auto

lemma exitLoop_concat:
  "exitLoop current wo prev =
     concat (map (\<lambda>(k, v). if \<not> map_has current k then pairEvent EXIT wo k else []) prev)"
  by (induction prev) auto

lemma unordered_pairs_members:
  "(a, b) \<in> set (unordered_pairs es) \<Longrightarrow> a \<in> set es \<and> b \<in> set es"
  by (induction es) auto

lemma unordered_pairs_distinct:
  "distinct (map f es) \<Longrightarrow> (a, b) \<in> set (unordered_pairs es) \<Longrightarrow> f a \<noteq> f b"
  by (induction es) (auto dest: unordered_pairs_members)

lemma collidable_distinct:
  assumes "wf_registry w"
  shows "distinct (map eid (collidable w))" and "set (collidable w) \<subseteq> set (getEntities w)"
proof -
  have "map eid (getEntities w) = map fst (entities w)"
    using assms by (auto simp: wf_registry_def getEntities_def map_values_def)
  with assms have "distinct (map eid (getEntities w))" by (simp add: wf_registry_def)
  then show "distinct (map eid (collidable w))"
    by (simp add: collidable_def distinct_map_filter)
  show "set (collidable w) \<subseteq> set (getEntities w)" by (auto simp: collidable_def)
qed

lemma spec_colliding_ids_present:
  assumes "wf_registry w" "k \<in> set (spec_colliding_ids h (collidable w))"
  shows "canonical_key k \<and> both_present w k"
proof -
  from assms(2) obtain a b where ab: "(a, b) \<in> set (unordered_pairs (collidable w))"
    and k: "k = getCollisionPairId a b"
    by (auto simp: spec_colliding_ids_def)
  from unordered_pairs_members[OF ab] collidable_distinct(2)[OF assms(1)]
  have "a \<in> set (getEntities w)" "b \<in> set (getEntities w)" by auto
  moreover from unordered_pairs_distinct[OF collidable_distinct(1)[OF assms(1)] ab]
  have "eid a \<noteq> eid b" .
  ultimately show ?thesis unfolding k by (rule pair_id_present[OF assms(1)])
qed

lemma collision_events_core:
  assumes wf: "wf_registry w" and wc: "wf_colliders h w" and inv: "pairs_inv cs"
  shows "\<exists>cur evs.
           CollisionSystem_update cs (Some w) h dt = Inr (cs\<lparr>collisionPairs := cur\<rparr>, evs) \<and>
           fst ` set cur = set (spec_colliding_ids h (collidable w)) \<and>
           pairs_inv (cs\<lparr>collisionPairs := cur\<rparr>) \<and>
           (\<forall>pairId. map etype (events_of pairId evs) =
                       expected_types cs w (spec_colliding_ids h (collidable w)) pairId)"
proof -
  let ?prev = "collisionPairs cs"
  let ?ids = "spec_colliding_ids h (collidable w)"
  from wc have "\<forall>e\<in>set (collidable w). colliderOf h e \<noteq> None"
    by (simp add: wf_colliders_def)
  from bruteForce_keys[OF this, of "[]"]
  obtain cur where det: "bruteForceCollisionDetection h (collidable w) [] = Inr cur"
    and keys: "fst ` set cur = set ?ids" and dist: "distinct (map fst cur)"
    by auto
  define evs where "evs = processCollisionEvents cs (Some w) cur"
  have upd: "CollisionSystem_update cs (Some w) h dt = Inr (cs\<lparr>collisionPairs := cur\<rparr>, evs)"
    using det by (simp add: CollisionSystem_update_def collidable_def[symmetric] evs_def)
  have cur_ok: "canonical_key k \<and> both_present w k" if "k \<in> fst ` set cur" for k
    using that keys spec_colliding_ids_present[OF wf, of k h] by simp
  have prev_ok: "canonical_key k" if "k \<in> fst ` set ?prev" for k
    using that inv by (auto simp add: pairs_inv_def)
  have inv': "pairs_inv (cs\<lparr>collisionPairs := cur\<rparr>)"
    using dist cur_ok by (simp add: pairs_inv_def)
  let ?g1 = "\<lambda>k. if \<not> map_has ?prev k then pairEvent ENTER (Some w) k
                  else pairEvent STAY (Some w) k"
  let ?g2 = "\<lambda>k. if \<not> map_has cur k then pairEvent EXIT (Some w) k else []"
  have k1: "\<forall>(k, v)\<in>set cur. \<forall>e\<in>set (?g1 k). ev_pair_id e = k"
  proof (clarify)
    fix k v e assume "(k, v) \<in> set cur" "e \<in> set (?g1 k)"
    then have "k \<in> fst ` set cur" and "e \<in> set (pairEvent ENTER (Some w) k) \<or> e \<in> set (pairEvent STAY (Some w) k)"
      by (force, auto split: if_splits)
    with cur_ok[of k] show "ev_pair_id e = k"
      by (auto dest: pairEvent_key[OF wf])
  qed
  have k2: "\<forall>(k, v)\<in>set ?prev. \<forall>e\<in>set (?g2 k). ev_pair_id e = k"
  proof (clarify)
    fix k v e assume "(k, v) \<in> set ?prev" "e \<in> set (?g2 k)"
    then have "k \<in> fst ` set ?prev" and "e \<in> set (pairEvent EXIT (Some w) k)"
      by (force, auto split: if_splits)
    with prev_ok[of k] show "ev_pair_id e = k"
      by (auto dest: pairEvent_key[OF wf])
  qed
  have d2: "distinct (map fst ?prev)" using inv by (simp add: pairs_inv_def)
  have f1: "events_of p (enterStayLoop ?prev (Some w) cur) = (if p \<in> fst ` set cur then ?g1 p else [])" for p
    unfolding events_of_def enterStayLoop_concat by (rule filter_concat_keyed[OF dist k1])
  have f2: "events_of p (exitLoop cur (Some w) ?prev) = (if p \<in> fst ` set ?prev then ?g2 p else [])" for p
    unfolding events_of_def exitLoop_concat by (rule filter_concat_keyed[OF d2 k2])
  have ev: "events_of p evs =
      (if p \<in> fst ` set cur then ?g1 p else []) @ (if p \<in> fst ` set ?prev then ?g2 p else [])" for p
    using f1[of p] f2[of p] by (simp add: evs_def processCollisionEvents_def events_of_def)
  have types: "map etype (events_of p evs) = expected_types cs w ?ids p" for p
  proof (cases "p \<in> fst ` set cur")
    case True
    with cur_ok[of p] have c: "canonical_key p" "both_present w p" by simp_all
    from True have m: "map_has cur p" by (simp add: map_has_def)
    from True keys have i: "p \<in> set ?ids" by simp
    show ?thesis
      using True m i c pairEvent_types[OF wf c(1)]
      by (simp add: ev expected_types_def map_has_def)
  next
    case False
    then have m: "\<not> map_has cur p" by (simp add: map_has_def)
    from False keys have i: "p \<notin> set ?ids" by simp
    show ?thesis
    proof (cases "p \<in> fst ` set ?prev")
      case True
      from prev_ok[OF True] have c: "canonical_key p" .
      from True have "map_has ?prev p" by (simp add: map_has_def)
      with False m i True pairEvent_types[OF wf c] show ?thesis
        by (simp add: ev expected_types_def)
    next
      case nprev: False
      then have "\<not> map_has ?prev p" by (simp add: map_has_def)
      with False i nprev show ?thesis by (simp add: ev expected_types_def)
    qed
  qed
  from upd keys inv' types show ?thesis by blast
qed

lemma events_of_only:
  assumes "\<forall>q. q \<noteq> p \<longrightarrow> map etype (events_of q evs) = []"
  shows "events_of p evs = evs"
proof -
  have "ev_pair_id e = p" if "e \<in> set evs" for e
  proof (rule ccontr)
    assume n: "ev_pair_id e \<noteq> p"
    from that have "e \<in> set (events_of (ev_pair_id e) evs)" by (simp add: events_of_def)
    moreover from assms n have "events_of (ev_pair_id e) evs = []" by simp
    ultimately show False by simp
  qed
  then show ?thesis by (simp add: events_of_def)
qed

lemma tick_single_pair:
  assumes wf: "wf_registry w" and wc: "wf_colliders h w" and inv: "pairs_inv cs"
    and prev: "fst ` set (collisionPairs cs) \<subseteq> {p}"
    and ids: "set (spec_colliding_ids h (collidable w)) \<subseteq> {p}"
  shows "\<exists>cur evs.
           CollisionSystem_update cs (Some w) h dt = Inr (cs\<lparr>collisionPairs := cur\<rparr>, evs) \<and>
           fst ` set cur = set (spec_colliding_ids h (collidable w)) \<and>
           pairs_inv (cs\<lparr>collisionPairs := cur\<rparr>) \<and>
           map etype evs = expected_types cs w (spec_colliding_ids h (collidable w)) p"
proof -
  from collision_events_core[OF wf wc inv, of dt]
  obtain cur evs where
    u: "CollisionSystem_update cs (Some w) h dt = Inr (cs\<lparr>collisionPairs := cur\<rparr>, evs)"
    and k: "fst ` set cur = set (spec_colliding_ids h (collidable w))"
    and i: "pairs_inv (cs\<lparr>collisionPairs := cur\<rparr>)"
    and t: "\<forall>pairId. map etype (events_of pairId evs) =
                       expected_types cs w (spec_colliding_ids h (collidable w)) pairId"
    by blast
  have "map etype (events_of q evs) = []" if "q \<noteq> p" for q
  proof -
    from that prev have "\<not> map_has (collisionPairs cs) q" by (auto simp: map_has_def)
    moreover from that ids have "q \<notin> set (spec_colliding_ids h (collidable w))" by auto
    ultimately show ?thesis using t by (simp add: expected_types_def)
  qed
  then have "events_of p evs = evs" by (intro events_of_only) simp
  with t have "map etype evs = expected_types cs w (spec_colliding_ids h (collidable w)) p"
    by metis
  with u k i show ?thesis by blast
qed

lemma four_ticks:
  assumes wf: "wf_registry w"
    and wc: "wf_colliders h1 w" "wf_colliders h2 w" "wf_colliders h3 w" "wf_colliders h4 w"
    and fresh: "collisionPairs cs = []"
    and c1: "set (spec_colliding_ids h1 (collidable w)) = {}"
    and c2: "set (spec_colliding_ids h2 (collidable w)) = {p}"
    and c3: "set (spec_colliding_ids h3 (collidable w)) = {p}"
    and c4: "set (spec_colliding_ids h4 (collidable w)) = {}"
  shows "run_ticks dt cs (Some w) [h1, h2, h3, h4] = Inr [[], [ENTER], [STAY], [EXIT]]"
proof -
  have inv0: "pairs_inv cs" using fresh by (simp add: pairs_inv_def)
  have p0: "fst ` set (collisionPairs cs) \<subseteq> {p}" using fresh by simp
  from tick_single_pair[OF wf wc(1) inv0 p0, of dt] c1
  obtain cur1 evs1 where
    u1: "CollisionSystem_update cs (Some w) h1 dt = Inr (cs\<lparr>collisionPairs := cur1\<rparr>, evs1)"
    and k1: "fst ` set cur1 = {}" and i1: "pairs_inv (cs\<lparr>collisionPairs := cur1\<rparr>)"
    and t1: "map etype evs1 = []"
    using fresh by (auto simp: expected_types_def map_has_def)
  let ?cs1 = "cs\<lparr>collisionPairs := cur1\<rparr>"
  have p1: "fst ` set (collisionPairs ?cs1) \<subseteq> {p}" using k1 by simp
  have ids2: "set (spec_colliding_ids h2 (collidable w)) \<subseteq> {p}" using c2 by simp
  from tick_single_pair[OF wf wc(2) i1 p1 ids2, of dt]
  obtain cur2 evs2 where
    u2: "CollisionSystem_update ?cs1 (Some w) h2 dt = Inr (?cs1\<lparr>collisionPairs := cur2\<rparr>, evs2)"
    and k2: "fst ` set cur2 = {p}" and i2: "pairs_inv (?cs1\<lparr>collisionPairs := cur2\<rparr>)"
    and t2: "map etype evs2 = [ENTER]"
    using c2 k1 by (auto simp: expected_types_def map_has_def)
  let ?cs2 = "?cs1\<lparr>collisionPairs := cur2\<rparr>"
  have p2: "fst ` set (collisionPairs ?cs2) \<subseteq> {p}" using k2 by simp
  have ids3: "set (spec_colliding_ids h3 (collidable w)) \<subseteq> {p}" using c3 by simp
  from tick_single_pair[OF wf wc(3) i2 p2 ids3, of dt]
  obtain cur3 evs3 where
    u3: "CollisionSystem_update ?cs2 (Some w) h3 dt = Inr (?cs2\<lparr>collisionPairs := cur3\<rparr>, evs3)"
    and k3: "fst ` set cur3 = {p}" and i3: "pairs_inv (?cs2\<lparr>collisionPairs := cur3\<rparr>)"
    and t3: "map etype evs3 = [STAY]"
    using c3 k2 by (auto simp: expected_types_def map_has_def)
  let ?cs3 = "?cs2\<lparr>collisionPairs := cur3\<rparr>"
  have p3: "fst ` set (collisionPairs ?cs3) \<subseteq> {p}" using k3 by simp
  have ids4: "set (spec_colliding_ids h4 (collidable w)) \<subseteq> {p}" using c4 by simp
  have present: "both_present w p"
    using spec_colliding_ids_present[OF wf, of p h3] c3 by simp
  from tick_single_pair[OF wf wc(4) i3 p3 ids4, of dt]
  obtain cur4 evs4 where
    u4: "CollisionSystem_update ?cs3 (Some w) h4 dt = Inr (?cs3\<lparr>collisionPairs := cur4\<rparr>, evs4)"
    and t4: "map etype evs4 = [EXIT]"
    using c4 k3 present by (auto simp: expected_types_def map_has_def)
  show ?thesis
    by (simp add: u1 u2[simplified] u3[simplified] u4[simplified] t1 t2 t3 t4)
qed

text \<open>
  C1. One tick of the collision system on a well-formed world, with canonical kept pairs:
  the tick returns without error; the pairs it keeps are exactly the ids of the colliding
  pairs of this tick, again canonical; and for every pair id the events of the tick that
  belong to it are exactly one \<open>ENTER\<close> if the id is current and was not kept, exactly one
  \<open>STAY\<close> if it is current and was kept, exactly one \<open>EXIT\<close> if it was kept, is not
  current and both entities are in the world, and none otherwise. Consequently four
  ticks of a fresh system, on heaps in which no pair, then one pair, then the same pair,
  then no pair collides, dispatch no event, one \<open>ENTER\<close>, one \<open>STAY\<close> and one \<open>EXIT\<close>.
\<close>

theorem collision_events_enter_stay_exit:
  assumes "wf_registry w" and "wf_colliders h w" and "pairs_inv cs"
  shows "(\<exists>cur evs.
            CollisionSystem_update cs (Some w) h dt = Inr (cs\<lparr>collisionPairs := cur\<rparr>, evs) \<and>
            fst ` set cur = set (spec_colliding_ids h (collidable w)) \<and>
            pairs_inv (cs\<lparr>collisionPairs := cur\<rparr>) \<and>
            (\<forall>pairId.
               (map_has cur pairId \<and> \<not> map_has (collisionPairs cs) pairId \<longrightarrow>
                  map etype (events_of pairId evs) = [ENTER]) \<and>
               (map_has cur pairId \<and> map_has (collisionPairs cs) pairId \<longrightarrow>
                  map etype (events_of pairId evs) = [STAY]) \<and>
               (\<not> map_has cur pairId \<and> map_has (collisionPairs cs) pairId \<and> both_present w pairId \<longrightarrow>
                  map etype (events_of pairId evs) = [EXIT]) \<and>
               (\<not> map_has cur pairId \<and> map_has (collisionPairs cs) pairId \<and> \<not> both_present w pairId \<longrightarrow>
                  events_of pairId evs = []) \<and>
               (\<not> map_has cur pairId \<and> \<not> map_has (collisionPairs cs) pairId \<longrightarrow>
                  events_of pairId evs = []))) \<and>
         (\<forall>h1 h2 h3 p.
            wf_colliders h1 w \<and> wf_colliders h2 w \<and> wf_colliders h3 w \<and>
            collisionPairs cs = [] \<and>
            set (spec_colliding_ids h (collidable w)) = {} \<and>
            set (spec_colliding_ids h1 (collidable w)) = {p} \<and>
            set (spec_colliding_ids h2 (collidable w)) = {p} \<and>
            set (spec_colliding_ids h3 (collidable w)) = {} \<longrightarrow>
            run_ticks dt cs (Some w) [h, h1, h2, h3] = Inr [[], [ENTER], [STAY], [EXIT]])"
proof (intro conjI allI impI)
  from collision_events_core[OF assms, of dt]
  obtain cur evs where
    u: "CollisionSystem_update cs (Some w) h dt = Inr (cs\<lparr>collisionPairs := cur\<rparr>, evs)"
    and k: "fst ` set cur = set (spec_colliding_ids h (collidable w))"
    and i: "pairs_inv (cs\<lparr>collisionPairs := cur\<rparr>)"
    and t: "\<forall>pairId. map etype (events_of pairId evs) =
                       expected_types cs w (spec_colliding_ids h (collidable w)) pairId"
    by blast
  have m: "map_has cur q \<longleftrightarrow> q \<in> set (spec_colliding_ids h (collidable w))" for q
    using k by (simp add: map_has_def)
  have "(map_has cur q \<and> \<not> map_has (collisionPairs cs) q \<longrightarrow>
                  map etype (events_of q evs) = [ENTER]) \<and>
               (map_has cur q \<and> map_has (collisionPairs cs) q \<longrightarrow>
                  map etype (events_of q evs) = [STAY]) \<and>
               (\<not> map_has cur q \<and> map_has (collisionPairs cs) q \<and> both_present w q \<longrightarrow>
                  map etype (events_of q evs) = [EXIT]) \<and>
               (\<not> map_has cur q \<and> map_has (collisionPairs cs) q \<and> \<not> both_present w q \<longrightarrow>
                  events_of q evs = []) \<and>
               (\<not> map_has cur q \<and> \<not> map_has (collisionPairs cs) q \<longrightarrow>
                  events_of q evs = [])" for q
    using t[rule_format, of q] by (auto simp: m expected_types_def)
  with u k i show "\<exists>cur evs.
            CollisionSystem_update cs (Some w) h dt = Inr (cs\<lparr>collisionPairs := cur\<rparr>, evs) \<and>
            fst ` set cur = set (spec_colliding_ids h (collidable w)) \<and>
            pairs_inv (cs\<lparr>collisionPairs := cur\<rparr>) \<and>
            (\<forall>pairId.
               (map_has cur pairId \<and> \<not> map_has (collisionPairs cs) pairId \<longrightarrow>
                  map etype (events_of pairId evs) = [ENTER]) \<and>
               (map_has cur pairId \<and> map_has (collisionPairs cs) pairId \<longrightarrow>
                  map etype (events_of pairId evs) = [STAY]) \<and>
               (\<not> map_has cur pairId \<and> map_has (collisionPairs cs) pairId \<and> both_present w pairId \<longrightarrow>
                  map etype (events_of pairId evs) = [EXIT]) \<and>
               (\<not> map_has cur pairId \<and> map_has (collisionPairs cs) pairId \<and> \<not> both_present w pairId \<longrightarrow>
                  events_of pairId evs = []) \<and>
               (\<not> map_has cur pairId \<and> \<not> map_has (collisionPairs cs) pairId \<longrightarrow>
                  events_of pairId evs = []))"
    by blast
next
  fix h1 h2 h3 p
  assume a: "wf_colliders h1 w \<and> wf_colliders h2 w \<and> wf_colliders h3 w \<and>
            collisionPairs cs = [] \<and>
            set (spec_colliding_ids h (collidable w)) = {} \<and>
            set (spec_colliding_ids h1 (collidable w)) = {p} \<and>
            set (spec_colliding_ids h2 (collidable w)) = {p} \<and>
            set (spec_colliding_ids h3 (collidable w)) = {}"
  show "run_ticks dt cs (Some w) [h, h1, h2, h3] = Inr [[], [ENTER], [STAY], [EXIT]]"
    by (rule four_ticks[OF assms(1) assms(2)]) (use a in blast)+
qed

theorem collision_events_enter_stay_exit_witness:
  "wf_registry scene_world \<and>
   wf_colliders (rect_scene 200 200) scene_world \<and>
   pairs_inv (new_CollisionSystem True 10 5) \<and>
   run_ticks (16 / 1000) (new_CollisionSystem True 10 5) (Some scene_world)
     [rect_scene 200 200, rect_scene 120 120, rect_scene 120 120, rect_scene 200 200]
     = Inr [[], [ENTER], [STAY], [EXIT]]"
proof -
  have r: "wf_registry scene_world" by (rule scene_wf_registry)
  have c: "wf_colliders (rect_scene px py) scene_world" for px py
    unfolding rect_scene_def by (rule scene_wf_colliders)
  have i: "pairs_inv (new_CollisionSystem True 10 5)"
    by (simp add: pairs_inv_def new_CollisionSystem_def)
  from collision_events_enter_stay_exit[OF r c[of 200 200] i, of "16 / 1000"]
  have "wf_colliders (rect_scene 120 120) scene_world \<and> wf_colliders (rect_scene 120 120) scene_world \<and>
        wf_colliders (rect_scene 200 200) scene_world \<and>
        collisionPairs (new_CollisionSystem True 10 5) = [] \<and>
        set (spec_colliding_ids (rect_scene 200 200) (collidable scene_world)) = {} \<and>
        set (spec_colliding_ids (rect_scene 120 120) (collidable scene_world)) = {''a:b''} \<and>
        set (spec_colliding_ids (rect_scene 120 120) (collidable scene_world)) = {''a:b''} \<and>
        set (spec_colliding_ids (rect_scene 200 200) (collidable scene_world)) = {} \<longrightarrow>
        run_ticks (16 / 1000) (new_CollisionSystem True 10 5) (Some scene_world)
          [rect_scene 200 200, rect_scene 120 120, rect_scene 120 120, rect_scene 200 200]
          = Inr [[], [ENTER], [STAY], [EXIT]]"
    by blast
  moreover have "collisionPairs (new_CollisionSystem True 10 5) = []"
    by (simp add: new_CollisionSystem_def)
  ultimately show ?thesis using r c i by (simp add: rect_scene_ids)
qed

end
